theory Spec2Isabelle
  imports Main "HOL-Library.Word"
begin

section \<open>Strings, numbers and the code pattern\<close>

text \<open>
  A JavaScript string is a sequence of UTF-16 code units; \<open>slice\<close>, \<open>length\<close> and a
  regular expression without the \<open>u\<close> flag all count code units. The model keeps that
  unit: a string is a list of 16-bit words. \<open>js\<close> embeds an ASCII literal of the source.
\<close>

type_synonym jsstring = "16 word list"

definition js :: "string \<Rightarrow> jsstring" where
  "js s = map (\<lambda>c. of_nat (of_char c)) s"

text \<open>
  \<open>String.fromCharCode(n)\<close> is the one-unit string whose unit is \<open>n\<close> reduced to 16 bits.
\<close>

definition fromCharCode :: "nat \<Rightarrow> jsstring" where
  "fromCharCode n = [of_nat n]"

text \<open>
  \<open>s += n\<close> and \<open>Array.prototype.join\<close> convert a number to its decimal string; the
  numbers converted here are the non-negative integers \<open>crypto.randomInt\<close> returns.
\<close>

function num_to_string :: "nat \<Rightarrow> jsstring" where
  "num_to_string n =
     (if n < 10 then fromCharCode (48 + n)
      else num_to_string (n div 10) @ fromCharCode (48 + n mod 10))"
  by pat_completeness auto
termination
  by (relation "measure id") auto

text \<open>
  \<open>const CODE_REGEX = /^[A-Z][0-9]{6}$/\<close>, used through \<open>CODE_REGEX.test(s)\<close>: without the
  \<open>m\<close> flag \<open>^\<close> and \<open>$\<close> are the two ends of the input, so the whole string is one unit
  of \<open>A..Z\<close> followed by exactly six units of \<open>0..9\<close>.
\<close>

definition is_AZ :: "16 word \<Rightarrow> bool" where
  "is_AZ c = (65 \<le> c \<and> c \<le> 90)"

definition is_09 :: "16 word \<Rightarrow> bool" where
  "is_09 c = (48 \<le> c \<and> c \<le> 57)"

definition CODE_REGEX_test :: "jsstring \<Rightarrow> bool" where
  "CODE_REGEX_test s =
     (case s of [] \<Rightarrow> False | c # ds \<Rightarrow> is_AZ c \<and> length ds = 6 \<and> list_all is_09 ds)"

section \<open>The random source\<close>

text \<open>
  \<open>crypto.randomInt(n)\<close> returns an integer \<open>r\<close> with \<open>0 \<le> r < n\<close>. The source of
  randomness is a sequence of naturals, one consumed per call and reduced below \<open>n\<close>;
  every sequence of outcomes the library can deliver is one of these.
\<close>

type_synonym rng = "nat \<Rightarrow> nat"

definition randomInt :: "nat \<Rightarrow> rng \<Rightarrow> nat \<times> rng" where
  "randomInt n g = (g 0 mod n, \<lambda>i. g (Suc i))"

section \<open>Code generation\<close>

text \<open>
  \<open>randomLetterAZ\<close> is the same in \<open>server.js\<close> and in both bots that allocate codes:
  \<open>String.fromCharCode(65 + crypto.randomInt(26))\<close>.
\<close>

definition randomLetterAZ :: "rng \<Rightarrow> jsstring \<times> rng" where
  "randomLetterAZ g = (case randomInt 26 g of (k, g') \<Rightarrow> (fromCharCode (65 + k), g'))"

text \<open>
  \<open>randomDigits\<close> of \<open>server.js\<close> and of the code-format bot:
  \<open>let s = ''; for (let i = 0; i < n; i++) s += crypto.randomInt(10); return s;\<close>
\<close>

function randomDigits_loop :: "nat \<Rightarrow> nat \<Rightarrow> jsstring \<Rightarrow> rng \<Rightarrow> jsstring \<times> rng" where
  "randomDigits_loop i n s g =
     (if i < n
      then (case randomInt 10 g of (d, g') \<Rightarrow> randomDigits_loop (i + 1) n (s @ num_to_string d) g')
      else (s, g))"
  by pat_completeness auto
termination
  by (relation "measure (\<lambda>(i, n, s, g). n - i)") auto

definition randomDigits :: "nat \<Rightarrow> rng \<Rightarrow> jsstring \<times> rng" where
  "randomDigits n g = randomDigits_loop 0 n [] g"

text \<open>
  \<open>randomDigits\<close> of the screening bot:
  \<open>Array.from({length:n}, ()=>crypto.randomInt(10)).join('')\<close>. \<open>Array.from\<close> calls the
  function once per index, in ascending order; \<open>join('')\<close> concatenates the decimal
  strings of the elements.
\<close>

fun array_from_randomInt :: "nat \<Rightarrow> rng \<Rightarrow> nat list \<times> rng" where
  "array_from_randomInt 0 g = ([], g)"
| "array_from_randomInt (Suc n) g =
     (case randomInt 10 g of (d, g') \<Rightarrow>
        (case array_from_randomInt n g' of (ds, g'') \<Rightarrow> (d # ds, g'')))"

definition randomDigits_arr :: "nat \<Rightarrow> rng \<Rightarrow> jsstring \<times> rng" where
  "randomDigits_arr n g =
     (case array_from_randomInt n g of (ds, g') \<Rightarrow> (concat (map num_to_string ds), g'))"

text \<open>\<open>randomCodeAZ6\<close>: \<open>randomLetterAZ() + randomDigits(6)\<close>, the letter drawn first.\<close>

definition randomCodeAZ6 :: "rng \<Rightarrow> jsstring \<times> rng" where
  "randomCodeAZ6 g =
     (case randomLetterAZ g of (l, g') \<Rightarrow>
        (case randomDigits 6 g' of (ds, g'') \<Rightarrow> (l @ ds, g'')))"

definition randomCodeAZ6_arr :: "rng \<Rightarrow> jsstring \<times> rng" where
  "randomCodeAZ6_arr g =
     (case randomLetterAZ g of (l, g') \<Rightarrow>
        (case randomDigits_arr 6 g' of (ds, g'') \<Rightarrow> (l @ ds, g'')))"

text \<open>
  The members table. \<open>tg_id\<close> is the primary key, \<open>my_code\<close> is a nullable unique text
  column; the screening bot adds \<open>screening_status TEXT NOT NULL DEFAULT 'pending'\<close>.
  The name columns and \<open>joined_at\<close> are read by no function modelled here. A table is
  the list of its rows.
\<close>

record member =
  tg_id :: int
  my_code :: "jsstring option"

record smember = member +
  screening_status :: jsstring

text \<open>
  \<open>SELECT 1 FROM members WHERE my_code = $1\<close> followed by \<open>rows.length\<close>: a row whose
  code is NULL is never selected.
\<close>

definition code_rows :: "('a member_scheme) list \<Rightarrow> jsstring \<Rightarrow> ('a member_scheme) list" where
  "code_rows ms c = filter (\<lambda>m. my_code m = Some c) ms"

text \<open>
  \<open>generateUniqueCode\<close>, three variants with one retry loop
  \<open>for (let i = 0; i < 6; i++) { const c = randomCodeAZ6(); ...; if (!rows.length) return c; }\<close>
  and different last lines. The loop takes the candidate generator and the fallback
  as parameters.
\<close>

function generateUniqueCode_loop ::
  "(rng \<Rightarrow> jsstring \<times> rng) \<Rightarrow> (rng \<Rightarrow> jsstring \<times> rng) \<Rightarrow>
   nat \<Rightarrow> ('a member_scheme) list \<Rightarrow> rng \<Rightarrow> jsstring \<times> rng" where
  "generateUniqueCode_loop cand fallback i ms g =
     (if i < 6
      then (case cand g of (c, g') \<Rightarrow>
              if length (code_rows ms c) = 0 then (c, g')
              else generateUniqueCode_loop cand fallback (i + 1) ms g')
      else fallback g)"
  by pat_completeness auto
termination
  by (relation "measure (\<lambda>(cand, fallback, i, ms, g). 6 - i)") auto

text \<open>\<open>server.js\<close>: \<open>return randomLetterAZ() + randomDigits(7).slice(1);\<close>\<close>

definition fallback_srv :: "rng \<Rightarrow> jsstring \<times> rng" where
  "fallback_srv g =
     (case randomLetterAZ g of (l, g') \<Rightarrow>
        (case randomDigits 7 g' of (ds, g'') \<Rightarrow> (l @ drop 1 ds, g'')))"

definition generateUniqueCode_srv :: "('a member_scheme) list \<Rightarrow> rng \<Rightarrow> jsstring \<times> rng" where
  "generateUniqueCode_srv ms g = generateUniqueCode_loop randomCodeAZ6 fallback_srv 0 ms g"

text \<open>The screening bot: \<open>return randomCodeAZ6();\<close>\<close>

definition generateUniqueCode :: "('a member_scheme) list \<Rightarrow> rng \<Rightarrow> jsstring \<times> rng" where
  "generateUniqueCode ms g = generateUniqueCode_loop randomCodeAZ6_arr randomCodeAZ6_arr 0 ms g"

text \<open>The code-format bot: \<open>return randomLetterAZ() + randomDigits(6);\<close>\<close>

definition fallback_fmt :: "rng \<Rightarrow> jsstring \<times> rng" where
  "fallback_fmt g =
     (case randomLetterAZ g of (l, g') \<Rightarrow>
        (case randomDigits 6 g' of (ds, g'') \<Rightarrow> (l @ ds, g'')))"

definition generateUniqueCode_fmt :: "('a member_scheme) list \<Rightarrow> rng \<Rightarrow> jsstring \<times> rng" where
  "generateUniqueCode_fmt ms g = generateUniqueCode_loop randomCodeAZ6 fallback_fmt 0 ms g"

text \<open>
  The candidates the retry loop draws, in order: the first \<open>n\<close> results of the candidate
  generator and the random source left after them. The loop stops at the first
  candidate that no row holds; this list is what it would draw if none were free.
\<close>

fun attempts :: "(rng \<Rightarrow> jsstring \<times> rng) \<Rightarrow> nat \<Rightarrow> rng \<Rightarrow> jsstring list \<times> rng" where
  "attempts cand 0 g = ([], g)"
| "attempts cand (Suc n) g =
     (case cand g of (c, g') \<Rightarrow>
        (case attempts cand n g' of (cs, g'') \<Rightarrow> (c # cs, g'')))"

section \<open>Storage errors and column types\<close>

text \<open>
  A statement the storage layer refuses raises in the client; the model returns the
  error as a value. \<open>INT\<close> columns and \<open>::int\<close> casts hold 32-bit signed integers: a
  value outside that range is refused.
\<close>

datatype db_error =
  UniqueViolation | ForeignKeyViolation | NumericOutOfRange | InvalidByteSequence

definition int4_ok :: "int \<Rightarrow> bool" where
  "int4_ok n = (- 2147483648 \<le> n \<and> n \<le> 2147483647)"

text \<open>
  A text parameter reaches the storage layer as UTF-8. The driver encodes a high
  surrogate followed by a low surrogate as the one code point they stand for; a
  surrogate that is not part of such a pair has no encoding and is sent as U+FFFD.
  \<open>utf8_roundtrip\<close> is the string as it is stored and read back: the pairs and
  all other units as they were, each lone surrogate replaced. The storage layer
  refuses a text that contains U+0000 (\<open>invalid byte sequence\<close>); the refusal comes
  while the parameters are read, before the statement runs.
\<close>

definition is_high_surrogate :: "16 word \<Rightarrow> bool" where
  "is_high_surrogate u = (0xD800 \<le> u \<and> u \<le> 0xDBFF)"

definition is_low_surrogate :: "16 word \<Rightarrow> bool" where
  "is_low_surrogate u = (0xDC00 \<le> u \<and> u \<le> 0xDFFF)"

fun utf8_roundtrip :: "jsstring \<Rightarrow> jsstring" where
  "utf8_roundtrip [] = []"
| "utf8_roundtrip [u] = (if is_high_surrogate u \<or> is_low_surrogate u then [0xFFFD] else [u])"
| "utf8_roundtrip (u # v # rest) =
     (if is_high_surrogate u \<and> is_low_surrogate v then u # v # utf8_roundtrip rest
      else if is_high_surrogate u \<or> is_low_surrogate u then 0xFFFD # utf8_roundtrip (v # rest)
      else u # utf8_roundtrip (v # rest))"

text \<open>
  A string in which every surrogate is part of a pair, the high one first.
\<close>

fun well_formed_utf16 :: "jsstring \<Rightarrow> bool" where
  "well_formed_utf16 [] = True"
| "well_formed_utf16 [u] = (\<not> is_high_surrogate u \<and> \<not> is_low_surrogate u)"
| "well_formed_utf16 (u # v # rest) =
     (if is_high_surrogate u then is_low_surrogate v \<and> well_formed_utf16 rest
      else \<not> is_low_surrogate u \<and> well_formed_utf16 (v # rest))"

section \<open>Repairing a member's code\<close>

text \<open>
  \<open>UPDATE members SET my_code = $1 WHERE tg_id = $2\<close>. \<open>my_code\<close> is \<open>UNIQUE\<close>: the
  statement is refused when another member already holds the code.
\<close>

definition update_my_code ::
  "jsstring \<Rightarrow> int \<Rightarrow> ('a member_scheme) list \<Rightarrow> db_error + ('a member_scheme) list" where
  "update_my_code c tgId ms =
     (if list_ex (\<lambda>m. tg_id m \<noteq> tgId \<and> my_code m = Some c) ms then Inl UniqueViolation
      else Inr (map (\<lambda>m. if tg_id m = tgId then m\<lparr>my_code := Some c\<rparr> else m) ms))"

text \<open>
  \<open>current && CODE_REGEX.test(current)\<close>: \<open>null\<close> and the empty string are falsy.
\<close>

definition current_conforms :: "jsstring option \<Rightarrow> bool" where
  "current_conforms current =
     (case current of None \<Rightarrow> False | Some c \<Rightarrow> c \<noteq> [] \<and> CODE_REGEX_test c)"

text \<open>
  \<open>ensureCodeFormat(tgId)\<close> has the same text in the screening bot and in the
  code-format bot; each calls its own \<open>generateUniqueCode\<close>, here the parameter
  \<open>gen\<close>. The result is the returned value (\<open>None\<close> for \<open>null\<close>) or the storage error,
  with the table and the random source as the call leaves them.
\<close>

definition ensureCodeFormat_with ::
  "(('a member_scheme) list \<Rightarrow> rng \<Rightarrow> jsstring \<times> rng) \<Rightarrow> int \<Rightarrow> ('a member_scheme) list \<Rightarrow> rng \<Rightarrow>
   (db_error + jsstring option) \<times> ('a member_scheme) list \<times> rng" where
  "ensureCodeFormat_with gen tgId ms g =
     (case filter (\<lambda>m. tg_id m = tgId) ms of
        [] \<Rightarrow> (Inr None, ms, g)
      | r # _ \<Rightarrow>
          if current_conforms (my_code r) then (Inr (my_code r), ms, g)
          else (case gen ms g of (newCode, g') \<Rightarrow>
                  (case update_my_code newCode tgId ms of
                     Inl e \<Rightarrow> (Inl e, ms, g')
                   | Inr ms' \<Rightarrow> (Inr (Some newCode), ms', g'))))"

definition ensureCodeFormat ::
  "int \<Rightarrow> ('a member_scheme) list \<Rightarrow> rng \<Rightarrow> (db_error + jsstring option) \<times> ('a member_scheme) list \<times> rng" where
  "ensureCodeFormat = ensureCodeFormat_with generateUniqueCode"

definition ensureCodeFormat_fmt ::
  "int \<Rightarrow> ('a member_scheme) list \<Rightarrow> rng \<Rightarrow> (db_error + jsstring option) \<times> ('a member_scheme) list \<times> rng" where
  "ensureCodeFormat_fmt = ensureCodeFormat_with generateUniqueCode_fmt"

section \<open>The screening bot\<close>

subsection \<open>Tables and messages\<close>

text \<open>
  \<open>screening_questions(id SERIAL PRIMARY KEY, q_text, q_type CHECK (q_type IN
  ('mcq','text')), options TEXT[], correct_index INT)\<close>,
  \<open>screening_sessions(id BIGSERIAL PRIMARY KEY, tg_id REFERENCES members UNIQUE,
  started_at, finished_at, score INT NOT NULL DEFAULT 0, result)\<close> and
  \<open>screening_answers(id BIGSERIAL PRIMARY KEY, session_id REFERENCES screening_sessions,
  question_id REFERENCES screening_questions, answer_text, chosen_index INT, is_correct)\<close>.
  The answers table declares no uniqueness but its primary key. \<open>started_at\<close> is never
  read. Timestamps are integers; \<open>NOW()\<close> is the field \<open>now\<close> of the context.
\<close>

datatype qtype = Mcq | TextQ

record question =
  q_id :: int
  q_text :: jsstring
  q_type :: qtype
  options :: "jsstring list option"
  correct_index :: "int option"

record session =
  s_id :: int
  s_tg_id :: int
  finished_at :: "int option"
  score :: int
  result :: "jsstring option"

record answer =
  a_id :: int
  session_id :: int
  question_id :: int
  answer_text :: "jsstring option"
  chosen_index :: "int option"
  is_correct :: "bool option"

text \<open>
  The messages the bot sends. The texts are Persian; a constructor stands for each,
  with the values it interpolates:
  \<^item> \<open>RegisterFirst\<close>: register first;
  \<^item> \<open>AlreadyAccepted\<close>, \<open>RejectedTalkToAdmin\<close>: the replies to a status of \<open>passed\<close>
    and of \<open>failed\<close>;
  \<^item> \<open>SendYourCode\<close>: send your personal code (a letter and six digits);
  \<^item> \<open>CodeMismatch\<close>, \<open>NoQuestions\<close>;
  \<^item> \<open>ResultText score max grade interp\<close>: result: score/max, then the grade and its
    one-line interpretation;
  \<^item> \<open>QuestionText\<close>: the text of a multiple-choice question; \<open>QuestionTextFree\<close>: the
    text of a free-text question followed by the request to write a short answer.
  An inline button carries its label and the payload \<open>ans:<question id>:<index>\<close>, kept
  as the two numbers.
\<close>

datatype interp = ExcellentMindset | SuitableWithCoaching | CanGrow | FocusOnBasics

datatype keyboard =
  NoKeyboard | StartKeyboard | MemberKeyboard | InlineKeyboard "(jsstring \<times> int \<times> nat) list"

datatype msg_text =
  RegisterFirst | AlreadyAccepted | RejectedTalkToAdmin | SendYourCode | CodeMismatch
  | NoQuestions | ResultText int int jsstring interp | QuestionText jsstring
  | QuestionTextFree jsstring

datatype cb_text = AnswerRecorded | CbError

datatype outgoing = Reply msg_text keyboard | AnswerCbQuery "cb_text option"

text \<open>
  The state: the four tables, the two sequences behind the \<open>BIGSERIAL\<close> keys, the
  in-process map \<open>awaitingText\<close> (user id to session and question), and the messages
  sent so far, oldest first.
\<close>

record state =
  members :: "smember list"
  screening_questions :: "question list"
  screening_sessions :: "session list"
  screening_sessions_seq :: int
  screening_answers :: "answer list"
  screening_answers_seq :: int
  awaitingText :: "int \<rightharpoonup> (int \<times> int)"
  outbox :: "outgoing list"

record ctx =
  from_id :: int
  now :: int

definition send :: "outgoing \<Rightarrow> state \<Rightarrow> state" where
  "send m s = s\<lparr>outbox := outbox s @ [m]\<rparr>"

subsection \<open>Sessions and answers\<close>

text \<open>
  \<open>getOrCreateSession(tgId)\<close>: the id of the member's session, inserting the row when
  there is none. The insert draws the next value of the sequence (a sequence does not
  roll back), and is refused when the key or the member reference is taken, or when
  \<open>tg_id\<close> references no member.
\<close>

definition getOrCreateSession :: "int \<Rightarrow> state \<Rightarrow> (db_error + int) \<times> state" where
  "getOrCreateSession tgId s =
     (case filter (\<lambda>r. s_tg_id r = tgId) (screening_sessions s) of
        r # _ \<Rightarrow> (Inr (s_id r), s)
      | [] \<Rightarrow>
          (let newId = screening_sessions_seq s + 1;
               s1 = s\<lparr>screening_sessions_seq := newId\<rparr>
           in if list_ex (\<lambda>r. s_id r = newId \<or> s_tg_id r = tgId) (screening_sessions s)
              then (Inl UniqueViolation, s1)
              else if \<not> list_ex (\<lambda>m. tg_id m = tgId) (members s)
              then (Inl ForeignKeyViolation, s1)
              else (Inr newId,
                    s1\<lparr>screening_sessions := screening_sessions s @
                         [\<lparr>s_id = newId, s_tg_id = tgId, finished_at = None, score = 0,
                           result = None\<rparr>]\<rparr>)))"

text \<open>
  The two inserts into \<open>screening_answers\<close>:
  \<open>INSERT INTO screening_answers(session_id,question_id,chosen_index,is_correct)
  VALUES($1,$2,$3,NULL) ON CONFLICT DO NOTHING\<close> in the button handler, and
  \<open>INSERT INTO screening_answers(session_id,question_id,answer_text,is_correct)
  VALUES($1,$2,$3,NULL)\<close> in the text handler. The key \<open>id\<close> is drawn from the sequence.
  \<open>ON CONFLICT DO NOTHING\<close> skips a row that violates a unique index; the only unique
  index of the table is the primary key. The parameters are read first: a question id
  or index outside 32 bits and a text with U+0000 are refused there. \<open>answer_text\<close>
  holds the text as stored.
\<close>

definition insert_answer ::
  "bool \<Rightarrow> int \<Rightarrow> int \<Rightarrow> jsstring option \<Rightarrow> int option \<Rightarrow> state \<Rightarrow> (db_error + unit) \<times> state" where
  "insert_answer on_conflict_do_nothing sid qid txt chosen s =
     (if \<not> int4_ok qid \<or> (case chosen of None \<Rightarrow> False | Some i \<Rightarrow> \<not> int4_ok i)
      then (Inl NumericOutOfRange, s)
      else if (case txt of None \<Rightarrow> False | Some t \<Rightarrow> 0 \<in> set t)
      then (Inl InvalidByteSequence, s)
      else
        (let newId = screening_answers_seq s + 1;
             s1 = s\<lparr>screening_answers_seq := newId\<rparr>
         in if list_ex (\<lambda>r. a_id r = newId) (screening_answers s)
            then (if on_conflict_do_nothing then (Inr (), s1) else (Inl UniqueViolation, s1))
            else if \<not> list_ex (\<lambda>r. s_id r = sid) (screening_sessions s)
                    \<or> \<not> list_ex (\<lambda>q. q_id q = qid) (screening_questions s)
            then (Inl ForeignKeyViolation, s1)
            else (Inr (),
                  s1\<lparr>screening_answers := screening_answers s @
                       [\<lparr>a_id = newId, session_id = sid, question_id = qid,
                         answer_text = map_option utf8_roundtrip txt,
                         chosen_index = chosen, is_correct = None\<rparr>]\<rparr>)))"

subsection \<open>Question selection\<close>

text \<open>
  \<open>nextQuestion(sessionId)\<close>:
  \<open>ans = SELECT question_id FROM screening_answers WHERE session_id=$1\<close>,
  \<open>ansSet = new Set(ans.map(r=>r.question_id))\<close>,
  \<open>qs = SELECT * FROM screening_questions ORDER BY id ASC\<close>,
  \<open>return qs.find(q=>!ansSet.has(q.id))||null\<close>.
\<close>

definition nextQuestion :: "int \<Rightarrow> state \<Rightarrow> question option" where
  "nextQuestion sessionId s =
     (let ans = filter (\<lambda>r. session_id r = sessionId) (screening_answers s);
          ansSet = set (map question_id ans);
          qs = sort_key q_id (screening_questions s)
      in find (\<lambda>q. q_id q \<notin> ansSet) qs)"

subsection \<open>Asking a question, finishing a session\<close>

text \<open>
  \<open>SELECT COALESCE(SUM(chosen_index+1),0)::int AS score FROM screening_answers WHERE
  session_id=$1\<close>: a row whose \<open>chosen_index\<close> is NULL adds nothing, \<open>chosen_index+1\<close> is
  32-bit addition, and the sum is cast to 32 bits.
\<close>

definition score_query :: "int \<Rightarrow> state \<Rightarrow> db_error + int" where
  "score_query sid s =
     (let idxs = List.map_filter chosen_index
                   (filter (\<lambda>r. session_id r = sid) (screening_answers s))
      in if list_ex (\<lambda>i. \<not> int4_ok (i + 1)) idxs then Inl NumericOutOfRange
         else (let total = sum_list (map (\<lambda>i. i + 1) idxs)
               in if int4_ok total then Inr total else Inl NumericOutOfRange))"

text \<open>The \<open>if\<close> chain of \<open>askQuestion\<close> that sets \<open>grade\<close> and \<open>interp\<close>.\<close>

definition grade_of :: "int \<Rightarrow> jsstring \<times> interp" where
  "grade_of sc =
     (if sc \<ge> 40 then (js ''A'', ExcellentMindset)
      else if sc \<ge> 32 then (js ''B'', SuitableWithCoaching)
      else if sc \<ge> 25 then (js ''C'', CanGrow)
      else (js ''D'', FocusOnBasics))"

text \<open>
  \<open>askQuestion(ctx,sessionId,q)\<close>. Without a question it computes the score, counts
  the catalog, writes \<open>finished_at\<close>, \<open>score\<close> and \<open>result\<close> to the session row and the
  grade to the member's \<open>screening_status\<close>, and replies
  \<open>score/(totalQ*5)\<close> with the grade. With a multiple-choice question it sends one
  button per option, \<open>(q.options||[]).map((opt,idx)=>...)\<close>; with a free-text question
  it records in \<open>awaitingText\<close> what the user's next text answers.
\<close>

definition askQuestion :: "ctx \<Rightarrow> int \<Rightarrow> question option \<Rightarrow> state \<Rightarrow> (db_error + unit) \<times> state" where
  "askQuestion c sessionId qo s =
     (case qo of
        None \<Rightarrow>
          (case score_query sessionId s of
             Inl e \<Rightarrow> (Inl e, s)
           | Inr sc \<Rightarrow>
               (let totalQ = int (length (screening_questions s));
                    grade = fst (grade_of sc);
                    interp = snd (grade_of sc);
                    s1 = s\<lparr>screening_sessions :=
                           map (\<lambda>r. if s_id r = sessionId
                                     then r\<lparr>finished_at := Some (now c), score := sc,
                                            result := Some grade\<rparr>
                                     else r) (screening_sessions s)\<rparr>;
                    s2 = s1\<lparr>members :=
                           map (\<lambda>m. if tg_id m = from_id c
                                     then m\<lparr>screening_status := grade\<rparr> else m) (members s1)\<rparr>
                in (Inr (), send (Reply (ResultText sc (totalQ * 5) grade interp) MemberKeyboard) s2)))
      | Some q \<Rightarrow>
          (if q_type q = Mcq
           then (let opts = (case options q of None \<Rightarrow> [] | Some os \<Rightarrow> os);
                     buttons = map (\<lambda>(opt, idx). (opt, q_id q, idx)) (zip opts [0..<length opts])
                 in (Inr (), send (Reply (QuestionText (q_text q)) (InlineKeyboard buttons)) s))
           else (Inr (),
                 send (Reply (QuestionTextFree (q_text q)) NoKeyboard)
                   (s\<lparr>awaitingText := (awaitingText s)(from_id c \<mapsto> (sessionId, q_id q))\<rparr>))))"

subsection \<open>Handlers\<close>

text \<open>
  \<open>startScreeningWithCode(ctx)\<close>, the handler of the start-screening button. It reads
  the member's row and replies; it writes nothing.
\<close>

definition startScreeningWithCode :: "ctx \<Rightarrow> state \<Rightarrow> state" where
  "startScreeningWithCode c s =
     (case filter (\<lambda>m. tg_id m = from_id c) (members s) of
        [] \<Rightarrow> send (Reply RegisterFirst StartKeyboard) s
      | r # _ \<Rightarrow>
          if screening_status r = js ''passed'' then send (Reply AlreadyAccepted MemberKeyboard) s
          else if screening_status r = js ''failed''
          then send (Reply RejectedTalkToAdmin MemberKeyboard) s
          else send (Reply SendYourCode NoKeyboard) s)"

text \<open>
  \<open>verifyCodeAndBegin(ctx,codeText)\<close>, called with the text of a message that matches
  \<open>CODE_REGEX\<close>. \<open>rows[0].my_code!==codeText\<close> holds for a NULL code.
\<close>

definition verifyCodeAndBegin :: "ctx \<Rightarrow> jsstring \<Rightarrow> state \<Rightarrow> (db_error + unit) \<times> state" where
  "verifyCodeAndBegin c codeText s =
     (case filter (\<lambda>m. tg_id m = from_id c) (members s) of
        [] \<Rightarrow> (Inr (), send (Reply RegisterFirst NoKeyboard) s)
      | r # _ \<Rightarrow>
          if my_code r \<noteq> Some codeText then (Inr (), send (Reply CodeMismatch NoKeyboard) s)
          else if length (screening_questions s) = 0
          then (Inr (), send (Reply NoQuestions MemberKeyboard) s)
          else (case getOrCreateSession (from_id c) s of
                  (Inl e, s1) \<Rightarrow> (Inl e, s1)
                | (Inr sessionId, s1) \<Rightarrow> askQuestion c sessionId (nextQuestion sessionId s1) s1))"

text \<open>
  The \<open>callback_query\<close> handler. The payload of a button press is one the bot put on a
  button: \<open>AnsData qid chosen\<close> for \<open>ans:<qid>:<chosen>\<close>, split at the colons and
  converted with unary \<open>+\<close>; \<open>OtherData\<close> for a payload that does not start with
  \<open>ans:\<close>. Everything the body raises is caught and answered with the error text.
\<close>

datatype cb_data = AnsData int int | OtherData

definition on_callback_query :: "ctx \<Rightarrow> cb_data \<Rightarrow> state \<Rightarrow> state" where
  "on_callback_query c d s =
     (case d of
        OtherData \<Rightarrow> send (AnswerCbQuery None) s
      | AnsData qid chosen \<Rightarrow>
          (case getOrCreateSession (from_id c) s of
             (Inl e, s1) \<Rightarrow> send (AnswerCbQuery (Some CbError)) s1
           | (Inr sessionId, s1) \<Rightarrow>
               (case insert_answer True sessionId qid None (Some chosen) s1 of
                  (Inl e, s2) \<Rightarrow> send (AnswerCbQuery (Some CbError)) s2
                | (Inr u, s2) \<Rightarrow>
                    (let s3 = send (AnswerCbQuery (Some AnswerRecorded)) s2
                     in case askQuestion c sessionId (nextQuestion sessionId s3) s3 of
                          (Inl e, s4) \<Rightarrow> send (AnswerCbQuery (Some CbError)) s4
                        | (Inr v, s4) \<Rightarrow> s4))))"

text \<open>
  The \<open>text\<close> handler, reached by a text no earlier handler took:
  \<open>const st=awaitingText.get(ctx.from.id); if (!st) return;
  awaitingText.delete(ctx.from.id);\<close> then the insert of \<open>ctx.message.text.slice(0,2000)\<close>
  and \<open>askQuestion\<close> for the next question. Nothing is caught here.
\<close>

definition on_text :: "ctx \<Rightarrow> jsstring \<Rightarrow> state \<Rightarrow> (db_error + unit) \<times> state" where
  "on_text c text s =
     (case awaitingText s (from_id c) of
        None \<Rightarrow> (Inr (), s)
      | Some (sessionId, questionId) \<Rightarrow>
          (let s1 = s\<lparr>awaitingText := (awaitingText s)(from_id c := None)\<rparr>
           in case insert_answer False sessionId questionId (Some (take 2000 text)) None s1 of
                (Inl e, s2) \<Rightarrow> (Inl e, s2)
              | (Inr u, s2) \<Rightarrow> askQuestion c sessionId (nextQuestion sessionId s2) s2))"

subsection \<open>Routing\<close>

text \<open>
  The updates the screening flow reacts to. \<open>StartScreening\<close> is the press of the
  start-screening button of the reply keyboard, routed to \<open>startScreeningWithCode\<close>.
  \<open>TextMessage\<close> is a text that is no command and none of the three keyboard labels:
  \<open>bot.hears(CODE_REGEX, ...)\<close> takes it when it matches the pattern, returns at once
  when a free-text answer is awaited from the user, and otherwise calls
  \<open>verifyCodeAndBegin(ctx,ctx.message.text.trim().toUpperCase())\<close> (on a text that
  matches the pattern, \<open>trim\<close> and \<open>toUpperCase\<close> change nothing); a text that does not
  match reaches \<open>bot.on('text', ...)\<close>. \<open>ButtonPress\<close> is a \<open>callback_query\<close>.
\<close>

datatype event =
  StartScreening ctx | TextMessage ctx jsstring | ButtonPress ctx cb_data

fun handle :: "event \<Rightarrow> state \<Rightarrow> state" where
  "handle (StartScreening c) s = startScreeningWithCode c s"
| "handle (TextMessage c t) s =
     (if CODE_REGEX_test t
      then (if awaitingText s (from_id c) \<noteq> None then s else snd (verifyCodeAndBegin c t s))
      else snd (on_text c t s))"
| "handle (ButtonPress c d) s = on_callback_query c d s"

fun run :: "event list \<Rightarrow> state \<Rightarrow> state" where
  "run [] s = s"
| "run (e # es) s = run es (handle e s)"

text \<open>A question has an answer row in a session.\<close>

definition answered_in :: "int \<Rightarrow> state \<Rightarrow> int \<Rightarrow> bool" where
  "answered_in sessionId s qid =
     list_ex (\<lambda>r. session_id r = sessionId \<and> question_id r = qid) (screening_answers s)"

section \<open>The invitation-code bot\<close>

text \<open>
  \<open>membership_codes(code TEXT PRIMARY KEY, allowed_uses INT, used_count INT, expires_at,
  note, created_by, created_at, active BOOLEAN)\<close> and \<open>members(tg_id BIGINT PRIMARY KEY,
  ..., code_used REFERENCES membership_codes)\<close>. The columns \<open>/register\<close> does not read
  are left out.
\<close>

record imember =
  im_tg_id :: int
  code_used :: "jsstring option"

record membership_code =
  code :: jsstring
  allowed_uses :: int
  used_count :: int
  expires_at :: "int option"
  active :: bool

record istate =
  imembers :: "imember list"
  membership_codes :: "membership_code list"

text \<open>
  The replies of \<open>/register\<close>: the format hint, already a member, invalid code, code
  deactivated, code expired, capacity full, registered, and the text of the \<open>catch\<close>
  branch.
\<close>

datatype ireply =
  FormatHint | AlreadyMember | InvalidCode | CodeDeactivated | CodeExpired | CodeFull
  | Registered | RegisterError

definition insert_imember :: "int \<Rightarrow> jsstring \<Rightarrow> istate \<Rightarrow> db_error + istate" where
  "insert_imember uid c s =
     (if list_ex (\<lambda>m. im_tg_id m = uid) (imembers s) then Inl UniqueViolation
      else if \<not> list_ex (\<lambda>r. code r = c) (membership_codes s) then Inl ForeignKeyViolation
      else Inr (s\<lparr>imembers := imembers s @ [\<lparr>im_tg_id = uid, code_used = Some c\<rparr>]\<rparr>))"

text \<open>\<open>UPDATE membership_codes SET used_count = used_count + 1 WHERE code = $1\<close>\<close>

definition increment_used_count :: "jsstring \<Rightarrow> istate \<Rightarrow> db_error + istate" where
  "increment_used_count c s =
     (if list_ex (\<lambda>r. code r = c \<and> \<not> int4_ok (used_count r + 1)) (membership_codes s)
      then Inl NumericOutOfRange
      else Inr (s\<lparr>membership_codes :=
                   map (\<lambda>r. if code r = c then r\<lparr>used_count := used_count r + 1\<rparr> else r)
                     (membership_codes s)\<rparr>))"

text \<open>
  \<open>bot.command('register', ...)\<close>. \<open>codeArg\<close> is \<open>parts[1]?.toUpperCase()\<close>, \<open>None\<close> when
  the command has no argument; \<open>uid\<close> is \<open>ctx.from.id\<close>, \<open>t\<close> the time of \<open>new Date()\<close>.
  The body runs between \<open>BEGIN\<close> and \<open>COMMIT\<close> with the code's row locked (\<open>FOR UPDATE\<close>):
  one call is one step of the model. \<open>ROLLBACK\<close> restores the state the call started
  from, in the rejections and in the \<open>catch\<close> branch.
\<close>

definition register_command :: "int \<Rightarrow> int \<Rightarrow> jsstring option \<Rightarrow> istate \<Rightarrow> ireply \<times> istate" where
  "register_command uid t codeArg s =
     (case codeArg of
        None \<Rightarrow> (FormatHint, s)
      | Some c \<Rightarrow>
          if c = [] then (FormatHint, s)
          else if length (filter (\<lambda>m. im_tg_id m = uid) (imembers s)) \<noteq> 0 then (AlreadyMember, s)
          else (case filter (\<lambda>r. code r = c) (membership_codes s) of
                  [] \<Rightarrow> (InvalidCode, s)
                | row # _ \<Rightarrow>
                    if \<not> active row then (CodeDeactivated, s)
                    else if (case expires_at row of None \<Rightarrow> False | Some e \<Rightarrow> e < t)
                    then (CodeExpired, s)
                    else if used_count row \<ge> allowed_uses row then (CodeFull, s)
                    else (case insert_imember uid c s of
                            Inl e \<Rightarrow> (RegisterError, s)
                          | Inr s1 \<Rightarrow>
                              (case increment_used_count c s1 of
                                 Inl e \<Rightarrow> (RegisterError, s)
                               | Inr s2 \<Rightarrow> (Registered, s2)))))"

text \<open>A sequence of \<open>/register\<close> commands, handled one after the other.\<close>

fun run_register :: "(int \<times> int \<times> jsstring option) list \<Rightarrow> istate \<Rightarrow> ireply list \<times> istate" where
  "run_register [] s = ([], s)"
| "run_register ((uid, t, codeArg) # es) s =
     (case register_command uid t codeArg s of
        (r, s') \<Rightarrow> (case run_register es s' of (rs, s'') \<Rightarrow> (r # rs, s'')))"

text \<open>
  What the schema guarantees of \<open>membership_codes\<close>: \<open>code\<close> is the primary key, and
  \<open>allowed_uses\<close> and \<open>used_count\<close> are \<open>INT\<close> columns.
\<close>

definition schema_ok :: "istate \<Rightarrow> bool" where
  "schema_ok s =
     (distinct (map code (membership_codes s)) \<and>
      list_all (\<lambda>r. int4_ok (allowed_uses r) \<and> int4_ok (used_count r)) (membership_codes s))"

text \<open>
  No code is used beyond its capacity; the members registered with a code; the
  redemptions a code has left.
\<close>

definition within_capacity :: "istate \<Rightarrow> bool" where
  "within_capacity s = list_all (\<lambda>r. used_count r \<le> allowed_uses r) (membership_codes s)"

definition members_with :: "jsstring \<Rightarrow> istate \<Rightarrow> nat" where
  "members_with c s = length (filter (\<lambda>m. code_used m = Some c) (imembers s))"

definition remaining_uses :: "jsstring \<Rightarrow> istate \<Rightarrow> nat" where
  "remaining_uses c s =
     (case filter (\<lambda>r. code r = c) (membership_codes s) of
        [] \<Rightarrow> 0
      | r # _ \<Rightarrow> nat (allowed_uses r - used_count r))"

section \<open>Example states\<close>

text \<open>
  A catalog of two questions, the first multiple-choice with five options, the second
  free-text; a member 7 with a conforming code and the default status; no session.
\<close>

definition demo_questions :: "question list" where
  "demo_questions =
     [\<lparr>q_id = 1, q_text = js ''Q1'', q_type = Mcq,
        options = Some [js ''a'', js ''b'', js ''c'', js ''d'', js ''e''], correct_index = None\<rparr>,
      \<lparr>q_id = 2, q_text = js ''Q2'', q_type = TextQ, options = None, correct_index = None\<rparr>]"

definition demo_state :: state where
  "demo_state =
     \<lparr>members = [\<lparr>tg_id = 7, my_code = Some (js ''K482913''), screening_status = js ''pending''\<rparr>],
      screening_questions = demo_questions,
      screening_sessions = [], screening_sessions_seq = 0,
      screening_answers = [], screening_answers_seq = 0,
      awaitingText = Map.empty, outbox = []\<rparr>"

definition demo_ctx :: ctx where
  "demo_ctx = \<lparr>from_id = 7, now = 1000\<rparr>"

text \<open>Two members an administrator has marked \<open>passed\<close> and \<open>failed\<close>.\<close>

definition decided_state :: state where
  "decided_state =
     \<lparr>members = [\<lparr>tg_id = 7, my_code = Some (js ''K482913''), screening_status = js ''passed''\<rparr>,
                 \<lparr>tg_id = 8, my_code = Some (js ''B111111''), screening_status = js ''failed''\<rparr>],
      screening_questions = demo_questions,
      screening_sessions = [], screening_sessions_seq = 0,
      screening_answers = [], screening_answers_seq = 0,
      awaitingText = Map.empty, outbox = []\<rparr>"

text \<open>
  Member 7 has a session and was asked the free-text question 2; a message of 2004
  code units, all of them \<open>x\<close> but the last four.
\<close>

definition await_state :: state where
  "await_state =
     demo_state\<lparr>screening_sessions :=
                  [\<lparr>s_id = 1, s_tg_id = 7, finished_at = None, score = 0, result = None\<rparr>],
                screening_sessions_seq := 1,
                awaitingText := [7 \<mapsto> (1, 2)]\<rparr>"

definition long_text :: jsstring where
  "long_text = replicate 2000 120 @ js ''tail''"

text \<open>
  A message of 2001 code units whose last two are the surrogate pair of U+1F600, and
  a message with U+0000.
\<close>

definition emoji_text :: jsstring where
  "emoji_text = replicate 1999 120 @ [0xD83D, 0xDE00]"

definition nul_text :: jsstring where
  "nul_text = js ''a'' @ [0] @ js ''b''"

text \<open>
  Member 7 has answered both questions: the fifth option of question 1 (index 4) and
  a free text for question 2.
\<close>

definition answered_state :: state where
  "answered_state =
     demo_state\<lparr>screening_sessions :=
                  [\<lparr>s_id = 1, s_tg_id = 7, finished_at = None, score = 0, result = None\<rparr>],
                screening_sessions_seq := 1,
                screening_answers :=
                  [\<lparr>a_id = 1, session_id = 1, question_id = 1, answer_text = None,
                    chosen_index = Some 4, is_correct = None\<rparr>,
                   \<lparr>a_id = 2, session_id = 1, question_id = 2, answer_text = Some (js ''yes''),
                    chosen_index = None, is_correct = None\<rparr>],
                screening_answers_seq := 2\<rparr>"

text \<open>Member 7 has answered question 1 only, with the fifth option.\<close>

definition half_state :: state where
  "half_state =
     demo_state\<lparr>screening_sessions :=
                  [\<lparr>s_id = 1, s_tg_id = 7, finished_at = None, score = 0, result = None\<rparr>],
                screening_sessions_seq := 1,
                screening_answers :=
                  [\<lparr>a_id = 1, session_id = 1, question_id = 1, answer_text = None,
                    chosen_index = Some 4, is_correct = None\<rparr>],
                screening_answers_seq := 1\<rparr>"

text \<open>
  Invitation codes: \<open>ONE\<close> with one use, \<open>OLD\<close> expired at time 50, \<open>OFF\<close> revoked,
  \<open>FULL\<close> used up by member 5.
\<close>

definition invite_state :: istate where
  "invite_state =
     \<lparr>imembers = [\<lparr>im_tg_id = 5, code_used = Some (js ''FULL'')\<rparr>],
      membership_codes =
        [\<lparr>code = js ''ONE'', allowed_uses = 1, used_count = 0, expires_at = None, active = True\<rparr>,
         \<lparr>code = js ''OLD'', allowed_uses = 3, used_count = 0, expires_at = Some 50, active = True\<rparr>,
         \<lparr>code = js ''OFF'', allowed_uses = 3, used_count = 0, expires_at = None, active = False\<rparr>,
         \<lparr>code = js ''FULL'', allowed_uses = 1, used_count = 1, expires_at = None, active = True\<rparr>]\<rparr>"

declare num_to_string.simps [simp del]
declare randomDigits_loop.simps [simp del]
declare generateUniqueCode_loop.simps [simp del]

section \<open>Properties of the generated codes\<close>

lemma unat_small: "n < 65536 \<Longrightarrow> unat (of_nat n :: 16 word) = n"
proof -
  assume a: "n < 65536"
  have "unat (of_nat n :: 16 word) = n mod 2 ^ LENGTH(16)" by (rule unat_of_nat)
  also have "\<dots> = n" using a by simp
  finally show ?thesis .
qed

lemma is_AZ_fromCharCode:
  assumes "k < 26"
  shows "is_AZ (of_nat (65 + k))"
proof -
  have "unat (of_nat (65 + k) :: 16 word) = 65 + k"
    using assms by (intro unat_small) simp
  then show ?thesis
    using assms unfolding is_AZ_def word_le_nat_alt by simp
qed

lemma is_09_digit:
  assumes "d < 10"
  shows "is_09 (of_nat (48 + d))"
proof -
  have "unat (of_nat (48 + d) :: 16 word) = 48 + d"
    using assms by (intro unat_small) simp
  then show ?thesis
    using assms unfolding is_09_def word_le_nat_alt by simp
qed


lemma randomInt_less: "0 < n \<Longrightarrow> fst (randomInt n g) < n"
  by (simp add: randomInt_def)

lemma num_to_string_digit:
  "d < 10 \<Longrightarrow> num_to_string d = [of_nat (48 + d)]"
  by (subst num_to_string.simps) (simp add: fromCharCode_def)

lemma randomLetterAZ_shape:
  "\<exists>c. fst (randomLetterAZ g) = [c] \<and> is_AZ c"
proof -
  obtain k g' where r: "randomInt 26 g = (k, g')" by (cases "randomInt 26 g")
  have "k < 26" using randomInt_less [of 26 g] r by simp
  then have "is_AZ (of_nat (65 + k))" by (rule is_AZ_fromCharCode)
  then show ?thesis
    unfolding randomLetterAZ_def fromCharCode_def r by simp
qed

lemma randomDigits_loop_shape:
  "\<exists>ds. fst (randomDigits_loop i n s g) = s @ ds \<and> length ds = n - i \<and> list_all is_09 ds"
proof (induction i n s g rule: randomDigits_loop.induct)
  case (1 i n s g)
  show ?case
  proof (cases "i < n")
    case False
    then show ?thesis by (subst randomDigits_loop.simps) simp
  next
    case True
    obtain d g' where r: "randomInt 10 g = (d, g')" by (cases "randomInt 10 g")
    have d: "d < 10" using randomInt_less [of 10 g] r by simp
    from "1.IH" [OF True r [symmetric]]
    obtain ds where ds: "fst (randomDigits_loop (i + 1) n (s @ num_to_string d) g') = (s @ num_to_string d) @ ds"
      "length ds = n - (i + 1)" "list_all is_09 ds" by blast
    have step: "randomDigits_loop i n s g = randomDigits_loop (i + 1) n (s @ num_to_string d) g'"
      using True r by (subst randomDigits_loop.simps) simp
    have "fst (randomDigits_loop i n s g) = s @ (of_nat (48 + d) # ds)"
      using step ds(1) d by (simp add: num_to_string_digit)
    moreover have "length (of_nat (48 + d) # ds) = n - i" using ds(2) True by simp
    moreover have "list_all is_09 (of_nat (48 + d) # ds)" using ds(3) is_09_digit [OF d] by simp
    ultimately show ?thesis by blast
  qed
qed

lemma randomDigits_shape:
  "length (fst (randomDigits n g)) = n \<and> list_all is_09 (fst (randomDigits n g))"
  using randomDigits_loop_shape [of 0 n "[]" g] unfolding randomDigits_def by auto

lemma array_from_randomInt_shape:
  "length (fst (array_from_randomInt n g)) = n \<and> (\<forall>d \<in> set (fst (array_from_randomInt n g)). d < 10)"
proof (induction n arbitrary: g)
  case 0
  then show ?case by simp
next
  case (Suc n)
  obtain d g' where r: "randomInt 10 g = (d, g')" by (cases "randomInt 10 g")
  have d: "d < 10" using randomInt_less [of 10 g] r by simp
  obtain ds g'' where a: "array_from_randomInt n g' = (ds, g'')" by (cases "array_from_randomInt n g'")
  from Suc [of g'] a have "length ds = n" "\<forall>d \<in> set ds. d < 10" by auto
  then show ?case using r a d by simp
qed

lemma join_digits:
  "\<forall>d \<in> set ds. d < 10 \<Longrightarrow>
   length (concat (map num_to_string ds)) = length ds \<and> list_all is_09 (concat (map num_to_string ds))"
proof (induction ds)
  case Nil
  then show ?case by simp
next
  case (Cons d ds)
  then have d: "d < 10" by simp
  from Cons have "length (concat (map num_to_string ds)) = length ds \<and> list_all is_09 (concat (map num_to_string ds))" by simp
  then show ?case using d is_09_digit [OF d] by (simp add: num_to_string_digit)
qed

lemma randomDigits_arr_shape:
  "length (fst (randomDigits_arr n g)) = n \<and> list_all is_09 (fst (randomDigits_arr n g))"
proof -
  obtain ds g' where a: "array_from_randomInt n g = (ds, g')" by (cases "array_from_randomInt n g")
  from array_from_randomInt_shape [of n g] a have "length ds = n" "\<forall>d \<in> set ds. d < 10" by auto
  with join_digits [of ds] show ?thesis unfolding randomDigits_arr_def a by simp
qed

lemma randomCodeAZ6_matches: "CODE_REGEX_test (fst (randomCodeAZ6 g))"
proof -
  obtain l g' where l: "randomLetterAZ g = (l, g')" by (cases "randomLetterAZ g")
  obtain ds g'' where ds: "randomDigits 6 g' = (ds, g'')" by (cases "randomDigits 6 g'")
  from randomLetterAZ_shape [of g] l obtain c where c: "l = [c]" "is_AZ c" by auto
  from randomDigits_shape [of 6 g'] ds have "length ds = 6" "list_all is_09 ds" by auto
  with c show ?thesis by (simp add: randomCodeAZ6_def l ds CODE_REGEX_test_def)
qed

lemma randomCodeAZ6_arr_matches: "CODE_REGEX_test (fst (randomCodeAZ6_arr g))"
proof -
  obtain l g' where l: "randomLetterAZ g = (l, g')" by (cases "randomLetterAZ g")
  obtain ds g'' where ds: "randomDigits_arr 6 g' = (ds, g'')" by (cases "randomDigits_arr 6 g'")
  from randomLetterAZ_shape [of g] l obtain c where c: "l = [c]" "is_AZ c" by auto
  from randomDigits_arr_shape [of 6 g'] ds have "length ds = 6" "list_all is_09 ds" by auto
  with c show ?thesis by (simp add: randomCodeAZ6_arr_def l ds CODE_REGEX_test_def)
qed

lemma fallback_fmt_matches: "CODE_REGEX_test (fst (fallback_fmt g))"
  using randomCodeAZ6_matches [of g] by (simp add: fallback_fmt_def randomCodeAZ6_def)

lemma fallback_srv_matches: "CODE_REGEX_test (fst (fallback_srv g))"
proof -
  obtain l g' where l: "randomLetterAZ g = (l, g')" by (cases "randomLetterAZ g")
  obtain ds g'' where ds: "randomDigits 7 g' = (ds, g'')" by (cases "randomDigits 7 g'")
  from randomLetterAZ_shape [of g] l obtain c where c: "l = [c]" "is_AZ c" by auto
  from randomDigits_shape [of 7 g'] ds have "length ds = 7" "list_all is_09 ds" by auto
  then have "length (drop 1 ds) = 6" "list_all is_09 (drop 1 ds)"
    by (auto simp: list_all_iff dest: in_set_dropD)
  with c show ?thesis by (simp add: fallback_srv_def l ds CODE_REGEX_test_def)
qed

lemma generateUniqueCode_loop_matches:
  assumes "\<And>g. CODE_REGEX_test (fst (cand g))" and "\<And>g. CODE_REGEX_test (fst (fallback g))"
  shows "CODE_REGEX_test (fst (generateUniqueCode_loop cand fallback i ms g))"
  using assms
proof (induction cand fallback i ms g rule: generateUniqueCode_loop.induct)
  case (1 cand fallback i ms g)
  show ?case
  proof (cases "i < 6")
    case False
    then show ?thesis using "1.prems"(2) by (subst generateUniqueCode_loop.simps) simp
  next
    case True
    obtain c g' where c: "cand g = (c, g')" by (cases "cand g")
    have cm: "CODE_REGEX_test c" using "1.prems"(1) [of g] c by simp
    show ?thesis
    proof (cases "length (code_rows ms c) = 0")
      case True
      with \<open>i < 6\<close> c cm show ?thesis by (subst generateUniqueCode_loop.simps) simp
    next
      case False
      with "1.IH" [OF True c [symmetric] False "1.prems"] \<open>i < 6\<close> c show ?thesis
        by (subst generateUniqueCode_loop.simps) simp
    qed
  qed
qed

text \<open>
  Claim C7. Every string \<open>generateUniqueCode\<close> returns matches \<open>^[A-Z][0-9]{6}$\<close>: for
  every members table and every outcome of the random source, in the variant of
  \<open>server.js\<close>, of the screening bot and of the code-format bot, whether the retry loop
  returns a candidate or the six candidates collide and the variant's last line
  returns its fallback.
\<close>

theorem generateUniqueCode_matches_pattern:
  "CODE_REGEX_test (fst (generateUniqueCode_srv ms g)) \<and>
   CODE_REGEX_test (fst (generateUniqueCode ms' g)) \<and>
   CODE_REGEX_test (fst (generateUniqueCode_fmt ms'' g)) \<and>
   CODE_REGEX_test (fst (fallback_srv g)) \<and>
   CODE_REGEX_test (fst (randomCodeAZ6_arr g)) \<and>
   CODE_REGEX_test (fst (fallback_fmt g))"
  unfolding generateUniqueCode_srv_def generateUniqueCode_def generateUniqueCode_fmt_def
  by (intro conjI generateUniqueCode_loop_matches randomCodeAZ6_matches
      randomCodeAZ6_arr_matches fallback_srv_matches fallback_fmt_matches)

theorem generateUniqueCode_matches_pattern_witness:
  "CODE_REGEX_test (fst (generateUniqueCode_srv
     [\<lparr>tg_id = 1, my_code = Some (js ''A000000'')\<rparr>] (\<lambda>i. 0))) \<and>
   CODE_REGEX_test (fst (generateUniqueCode
     [\<lparr>tg_id = 1, my_code = Some (js ''A000000'')\<rparr>] (\<lambda>i. 0))) \<and>
   CODE_REGEX_test (fst (generateUniqueCode_fmt
     [\<lparr>tg_id = 1, my_code = Some (js ''A000000'')\<rparr>] (\<lambda>i. 0))) \<and>
   CODE_REGEX_test (fst (fallback_srv (\<lambda>i. 0))) \<and>
   CODE_REGEX_test (fst (randomCodeAZ6_arr (\<lambda>i. 0))) \<and>
   CODE_REGEX_test (fst (fallback_fmt (\<lambda>i. 0)))"
  by (rule generateUniqueCode_matches_pattern)

section \<open>Uniqueness of the generated code\<close>

lemma generateUniqueCode_loop_find:
  "i \<le> 6 \<Longrightarrow>
   fst (generateUniqueCode_loop cand fb i ms g) =
     (case find (\<lambda>c. code_rows ms c = []) (fst (attempts cand (6 - i) g)) of
        Some c \<Rightarrow> c
      | None \<Rightarrow> fst (fb (snd (attempts cand (6 - i) g))))"
proof (induction cand fb i ms g rule: generateUniqueCode_loop.induct)
  case (1 cand fb i ms g)
  show ?case
  proof (cases "i < 6")
    case False
    with "1.prems" have "i = 6" by simp
    then show ?thesis by (subst generateUniqueCode_loop.simps) simp
  next
    case True
    define n where "n = 6 - (i + 1)"
    obtain c g' where c: "cand g = (c, g')" by (cases "cand g")
    obtain cs g'' where a: "attempts cand n g' = (cs, g'')"
      by (cases "attempts cand n g'")
    from True have n: "6 - i = Suc n" by (simp add: n_def)
    have att: "attempts cand (6 - i) g = (c # cs, g'')"
      unfolding n using c a by simp
    show ?thesis
    proof (cases "code_rows ms c = []")
      case free: True
      then have "generateUniqueCode_loop cand fb i ms g = (c, g')"
        using True c by (subst generateUniqueCode_loop.simps) simp
      with free att show ?thesis by simp
    next
      case taken: False
      then have l: "length (code_rows ms c) \<noteq> 0" by simp
      have step: "generateUniqueCode_loop cand fb i ms g = generateUniqueCode_loop cand fb (i + 1) ms g'"
        using True c taken by (subst generateUniqueCode_loop.simps) simp
      from True have "i + 1 \<le> 6" by simp
      from "1.IH" [OF True c [symmetric] l this]
      have "fst (generateUniqueCode_loop cand fb (i + 1) ms g') =
        (case find (\<lambda>c. code_rows ms c = []) (fst (attempts cand n g')) of
           Some c \<Rightarrow> c | None \<Rightarrow> fst (fb (snd (attempts cand n g'))))"
        unfolding n_def .
      with step taken att a show ?thesis by (simp split: option.split)
    qed
  qed
qed

lemma find_absent_code:
  "\<exists>c \<in> set cs. code_rows ms c = [] \<Longrightarrow>
   \<exists>c. find (\<lambda>c. code_rows ms c = []) cs = Some c \<and> code_rows ms c = []"
  by (induction cs) auto

lemma find_none_taken:
  "\<forall>c \<in> set cs. code_rows ms c \<noteq> [] \<Longrightarrow> find (\<lambda>c. code_rows ms c = []) cs = None"
  by (induction cs) auto

lemma generateUniqueCode_loop_absent:
  assumes "\<exists>c \<in> set (fst (attempts cand 6 g)). code_rows ms c = []"
  shows "code_rows ms (fst (generateUniqueCode_loop cand fb 0 ms g)) = []"
proof -
  from find_absent_code [OF assms] obtain c
    where "find (\<lambda>c. code_rows ms c = []) (fst (attempts cand 6 g)) = Some c" "code_rows ms c = []"
    by blast
  then show ?thesis using generateUniqueCode_loop_find [of 0 cand fb ms g] by simp
qed

lemma generateUniqueCode_loop_fallback:
  assumes "\<forall>c \<in> set (fst (attempts cand 6 g)). code_rows ms c \<noteq> []"
  shows "fst (generateUniqueCode_loop cand fb 0 ms g) = fst (fb (snd (attempts cand 6 g)))"
  using generateUniqueCode_loop_find [of 0 cand fb ms g] find_none_taken [OF assms] by simp

lemma length_attempts: "length (fst (attempts cand n g)) = n"
proof (induction n arbitrary: g)
  case 0
  then show ?case by simp
next
  case (Suc n)
  obtain c g' where c: "cand g = (c, g')" by (cases "cand g")
  obtain cs g'' where a: "attempts cand n g' = (cs, g'')" by (cases "attempts cand n g'")
  from Suc [of g'] a have "length cs = n" by simp
  with c a show ?case by simp
qed

lemma generateUniqueCode_loop_first:
  assumes "\<exists>c \<in> set (fst (attempts cand 6 g)). code_rows ms c = []"
  shows "\<exists>i<6. fst (generateUniqueCode_loop cand fb 0 ms g) = fst (attempts cand 6 g) ! i \<and>
           code_rows ms (fst (attempts cand 6 g) ! i) = [] \<and>
           (\<forall>j<i. code_rows ms (fst (attempts cand 6 g) ! j) \<noteq> [])"
proof -
  let ?cs = "fst (attempts cand 6 g)"
  from find_absent_code [OF assms] obtain c
    where f: "find (\<lambda>c. code_rows ms c = []) ?cs = Some c" by blast
  then obtain i where i: "i < length ?cs" "code_rows ms (?cs ! i) = []" "c = ?cs ! i"
    "\<forall>j<i. code_rows ms (?cs ! j) \<noteq> []"
    unfolding find_Some_iff by blast
  from f have "fst (generateUniqueCode_loop cand fb 0 ms g) = c"
    using generateUniqueCode_loop_find [of 0 cand fb ms g] by simp
  with i show ?thesis by (auto simp: length_attempts)
qed

text \<open>
  Claim C3, as amended. \<open>generateUniqueCode\<close> returns a code no row of the members
  table holds whenever one of the six candidates of its retry loop is held by no row:
  it returns the first such candidate, the one at the least position among the six
  drawn in order. When all six candidates are held, it returns the result of its last
  line, drawn after them and not looked up: that code may be one a member holds. This
  is so in the variant of \<open>server.js\<close>, of the screening bot and of the code-format
  bot.
\<close>

theorem generateUniqueCode_absent_unless_six_collisions:
  "((\<exists>c \<in> set (fst (attempts randomCodeAZ6 6 g)). code_rows ms c = []) \<longrightarrow>
      code_rows ms (fst (generateUniqueCode_srv ms g)) = [] \<and>
      code_rows ms (fst (generateUniqueCode_fmt ms g)) = [] \<and>
      (\<exists>i<6. fst (generateUniqueCode_srv ms g) = fst (attempts randomCodeAZ6 6 g) ! i \<and>
             fst (generateUniqueCode_fmt ms g) = fst (attempts randomCodeAZ6 6 g) ! i \<and>
             code_rows ms (fst (attempts randomCodeAZ6 6 g) ! i) = [] \<and>
             (\<forall>j<i. code_rows ms (fst (attempts randomCodeAZ6 6 g) ! j) \<noteq> []))) \<and>
   ((\<exists>c \<in> set (fst (attempts randomCodeAZ6_arr 6 g)). code_rows ms c = []) \<longrightarrow>
      code_rows ms (fst (generateUniqueCode ms g)) = [] \<and>
      (\<exists>i<6. fst (generateUniqueCode ms g) = fst (attempts randomCodeAZ6_arr 6 g) ! i \<and>
             code_rows ms (fst (attempts randomCodeAZ6_arr 6 g) ! i) = [] \<and>
             (\<forall>j<i. code_rows ms (fst (attempts randomCodeAZ6_arr 6 g) ! j) \<noteq> []))) \<and>
   ((\<forall>c \<in> set (fst (attempts randomCodeAZ6 6 g)). code_rows ms c \<noteq> []) \<longrightarrow>
      fst (generateUniqueCode_srv ms g) = fst (fallback_srv (snd (attempts randomCodeAZ6 6 g))) \<and>
      fst (generateUniqueCode_fmt ms g) = fst (fallback_fmt (snd (attempts randomCodeAZ6 6 g)))) \<and>
   ((\<forall>c \<in> set (fst (attempts randomCodeAZ6_arr 6 g)). code_rows ms c \<noteq> []) \<longrightarrow>
      fst (generateUniqueCode ms g) =
        fst (randomCodeAZ6_arr (snd (attempts randomCodeAZ6_arr 6 g)))) \<and>
   length (fst (attempts randomCodeAZ6 6 g)) = 6 \<and>
   length (fst (attempts randomCodeAZ6_arr 6 g)) = 6"
proof -
  have first: "\<exists>i<6. fst (generateUniqueCode_srv ms g) = fst (attempts randomCodeAZ6 6 g) ! i \<and>
             fst (generateUniqueCode_fmt ms g) = fst (attempts randomCodeAZ6 6 g) ! i \<and>
             code_rows ms (fst (attempts randomCodeAZ6 6 g) ! i) = [] \<and>
             (\<forall>j<i. code_rows ms (fst (attempts randomCodeAZ6 6 g) ! j) \<noteq> [])"
    if e: "\<exists>c \<in> set (fst (attempts randomCodeAZ6 6 g)). code_rows ms c = []"
  proof -
    let ?cs = "fst (attempts randomCodeAZ6 6 g)"
    from generateUniqueCode_loop_first [OF e, of fallback_srv] obtain i
      where i: "i < 6" "fst (generateUniqueCode_srv ms g) = ?cs ! i"
        "code_rows ms (?cs ! i) = []" "\<forall>j<i. code_rows ms (?cs ! j) \<noteq> []"
      unfolding generateUniqueCode_srv_def by blast
    from generateUniqueCode_loop_first [OF e, of fallback_fmt] obtain k
      where k: "k < 6" "fst (generateUniqueCode_fmt ms g) = ?cs ! k"
        "code_rows ms (?cs ! k) = []" "\<forall>j<k. code_rows ms (?cs ! j) \<noteq> []"
      unfolding generateUniqueCode_fmt_def by blast
    from i(3,4) k(3,4) have "i = k" by (meson linorder_neqE_nat)
    with i k show ?thesis by blast
  qed
  have first_arr: "\<exists>i<6. fst (generateUniqueCode ms g) = fst (attempts randomCodeAZ6_arr 6 g) ! i \<and>
             code_rows ms (fst (attempts randomCodeAZ6_arr 6 g) ! i) = [] \<and>
             (\<forall>j<i. code_rows ms (fst (attempts randomCodeAZ6_arr 6 g) ! j) \<noteq> [])"
    if e: "\<exists>c \<in> set (fst (attempts randomCodeAZ6_arr 6 g)). code_rows ms c = []"
    using generateUniqueCode_loop_first [OF e, of randomCodeAZ6_arr]
    unfolding generateUniqueCode_def by blast
  have absent: "code_rows ms (fst (generateUniqueCode_srv ms g)) = [] \<and>
      code_rows ms (fst (generateUniqueCode_fmt ms g)) = []"
    if "\<exists>c \<in> set (fst (attempts randomCodeAZ6 6 g)). code_rows ms c = []"
    unfolding generateUniqueCode_srv_def generateUniqueCode_fmt_def
    using that by (intro conjI generateUniqueCode_loop_absent)
  have absent_arr: "code_rows ms (fst (generateUniqueCode ms g)) = []"
    if "\<exists>c \<in> set (fst (attempts randomCodeAZ6_arr 6 g)). code_rows ms c = []"
    unfolding generateUniqueCode_def
    using that by (rule generateUniqueCode_loop_absent)
  have fb: "fst (generateUniqueCode_srv ms g) = fst (fallback_srv (snd (attempts randomCodeAZ6 6 g))) \<and>
      fst (generateUniqueCode_fmt ms g) = fst (fallback_fmt (snd (attempts randomCodeAZ6 6 g)))"
    if "\<forall>c \<in> set (fst (attempts randomCodeAZ6 6 g)). code_rows ms c \<noteq> []"
    unfolding generateUniqueCode_srv_def generateUniqueCode_fmt_def
    using that by (intro conjI generateUniqueCode_loop_fallback)
  have fb_arr: "fst (generateUniqueCode ms g) =
        fst (randomCodeAZ6_arr (snd (attempts randomCodeAZ6_arr 6 g)))"
    if "\<forall>c \<in> set (fst (attempts randomCodeAZ6_arr 6 g)). code_rows ms c \<noteq> []"
    unfolding generateUniqueCode_def
    using that by (rule generateUniqueCode_loop_fallback)
  from first first_arr absent absent_arr fb fb_arr
    length_attempts [of randomCodeAZ6 6 g] length_attempts [of randomCodeAZ6_arr 6 g]
  show ?thesis by blast
qed

theorem generateUniqueCode_absent_unless_six_collisions_witness:
  "(\<exists>c \<in> set (fst (attempts randomCodeAZ6 6 (\<lambda>i. i))).
      code_rows [\<lparr>tg_id = 1, my_code = Some (js ''A123456'')\<rparr>] c = []) \<and>
   fst (attempts randomCodeAZ6 6 (\<lambda>i. i)) ! 0 = js ''A123456'' \<and>
   fst (attempts randomCodeAZ6 6 (\<lambda>i. i)) ! 1 = js ''H890123'' \<and>
   fst (generateUniqueCode_srv [\<lparr>tg_id = 1, my_code = Some (js ''A123456'')\<rparr>] (\<lambda>i. i))
     = js ''H890123'' \<and>
   code_rows [\<lparr>tg_id = 1, my_code = Some (js ''A123456'')\<rparr>]
     (fst (generateUniqueCode_srv [\<lparr>tg_id = 1, my_code = Some (js ''A123456'')\<rparr>] (\<lambda>i. i))) = [] \<and>
   (\<exists>c \<in> set (fst (attempts randomCodeAZ6_arr 6 (\<lambda>i. i))).
      code_rows [\<lparr>tg_id = 1, my_code = Some (js ''A123456'')\<rparr>] c = []) \<and>
   fst (generateUniqueCode [\<lparr>tg_id = 1, my_code = Some (js ''A123456'')\<rparr>] (\<lambda>i. i))
     = js ''H890123'' \<and>
   code_rows [\<lparr>tg_id = 1, my_code = Some (js ''A123456'')\<rparr>]
     (fst (generateUniqueCode [\<lparr>tg_id = 1, my_code = Some (js ''A123456'')\<rparr>] (\<lambda>i. i))) = [] \<and>
   list_all (\<lambda>c. code_rows [\<lparr>tg_id = 1, my_code = Some (js ''A000000'')\<rparr>] c \<noteq> [])
     (fst (attempts randomCodeAZ6 6 (\<lambda>i. 0))) \<and>
   fst (generateUniqueCode_srv [\<lparr>tg_id = 1, my_code = Some (js ''A000000'')\<rparr>] (\<lambda>i. 0)) =
     fst (fallback_srv (snd (attempts randomCodeAZ6 6 (\<lambda>i. 0)))) \<and>
   list_all (\<lambda>c. code_rows [\<lparr>tg_id = 1, my_code = Some (js ''A000000'')\<rparr>] c \<noteq> [])
     (fst (attempts randomCodeAZ6_arr 6 (\<lambda>i. 0))) \<and>
   fst (generateUniqueCode [\<lparr>tg_id = 1, my_code = Some (js ''A000000'')\<rparr>] (\<lambda>i. 0)) =
     fst (randomCodeAZ6_arr (snd (attempts randomCodeAZ6_arr 6 (\<lambda>i. 0))))"
proof -
  let ?first = "[\<lparr>tg_id = 1, my_code = Some (js ''A123456'')\<rparr>]"
  let ?held = "[\<lparr>tg_id = 1, my_code = Some (js ''A000000'')\<rparr>]"
  let ?z = "\<lambda>i::nat. 0::nat"
  let ?n = "\<lambda>i::nat. i"
  have f1: "list_ex (\<lambda>c. code_rows ?first c = []) (fst (attempts randomCodeAZ6 6 ?n))"
    by code_simp
  have f2: "list_ex (\<lambda>c. code_rows ?first c = []) (fst (attempts randomCodeAZ6_arr 6 ?n))"
    by code_simp
  have p0: "fst (attempts randomCodeAZ6 6 ?n) ! 0 = js ''A123456''"
    by code_simp
  have p1: "fst (attempts randomCodeAZ6 6 ?n) ! 1 = js ''H890123''"
    by code_simp
  have v1: "fst (generateUniqueCode_srv ?first ?n) = js ''H890123''"
    by code_simp
  have v2: "fst (generateUniqueCode ?first ?n) = js ''H890123''"
    by code_simp
  have h1: "list_all (\<lambda>c. code_rows ?held c \<noteq> []) (fst (attempts randomCodeAZ6 6 ?z))"
    by code_simp
  have h2: "list_all (\<lambda>c. code_rows ?held c \<noteq> []) (fst (attempts randomCodeAZ6_arr 6 ?z))"
    by code_simp
  note t = generateUniqueCode_absent_unless_six_collisions
  from f1 have e1: "\<exists>c \<in> set (fst (attempts randomCodeAZ6 6 ?n)). code_rows ?first c = []"
    by (simp add: list_ex_iff)
  from f2 have e2: "\<exists>c \<in> set (fst (attempts randomCodeAZ6_arr 6 ?n)). code_rows ?first c = []"
    by (simp add: list_ex_iff)
  from h1 have a1: "\<forall>c \<in> set (fst (attempts randomCodeAZ6 6 ?z)). code_rows ?held c \<noteq> []"
    by (simp add: list_all_iff)
  from h2 have a2: "\<forall>c \<in> set (fst (attempts randomCodeAZ6_arr 6 ?z)). code_rows ?held c \<noteq> []"
    by (simp add: list_all_iff)
  from t [of ?n ?first] e1 have c1: "code_rows ?first (fst (generateUniqueCode_srv ?first ?n)) = []"
    by blast
  from t [of ?n ?first] e2 have c2: "code_rows ?first (fst (generateUniqueCode ?first ?n)) = []"
    by blast
  from t [of ?z ?held] a1
  have c3: "fst (generateUniqueCode_srv ?held ?z) = fst (fallback_srv (snd (attempts randomCodeAZ6 6 ?z)))"
    by blast
  from t [of ?z ?held] a2
  have c4: "fst (generateUniqueCode ?held ?z) =
     fst (randomCodeAZ6_arr (snd (attempts randomCodeAZ6_arr 6 ?z)))"
    by blast
  from e1 p0 p1 v1 c1 e2 v2 c2 h1 c3 h2 c4 show ?thesis by blast
qed

text \<open>
  The claim as stated fails: with a member holding \<open>A000000\<close> and a random source
  that returns 0 at every call, the six candidates are all \<open>A000000\<close>, and so is the
  code returned, in the screening bot and in \<open>server.js\<close>.
\<close>

theorem generateUniqueCode_collision_counterexample:
  "fst (generateUniqueCode [\<lparr>tg_id = 1, my_code = Some (js ''A000000'')\<rparr>] (\<lambda>i. 0))
     = js ''A000000'' \<and>
   fst (generateUniqueCode_srv [\<lparr>tg_id = 1, my_code = Some (js ''A000000'')\<rparr>] (\<lambda>i. 0))
     = js ''A000000'' \<and>
   code_rows [\<lparr>tg_id = 1, my_code = Some (js ''A000000'')\<rparr>] (js ''A000000'')
     = [\<lparr>tg_id = 1, my_code = Some (js ''A000000'')\<rparr>]"
  by code_simp

section \<open>Repair of a conforming code\<close>

lemma CODE_REGEX_test_nonempty: "CODE_REGEX_test c \<Longrightarrow> c \<noteq> []"
  by (auto simp: CODE_REGEX_test_def)

lemma ensureCodeFormat_with_conforming:
  assumes "filter (\<lambda>m. tg_id m = tgId) ms = r # rest"
    and "my_code r = Some c" and "CODE_REGEX_test c"
  shows "ensureCodeFormat_with gen tgId ms g = (Inr (Some c), ms, g)"
  using assms CODE_REGEX_test_nonempty [OF assms(3)]
  by (simp add: ensureCodeFormat_with_def current_conforms_def)

text \<open>
  Claim C6. For a member whose stored code matches \<open>^[A-Z][0-9]{6}$\<close>,
  \<open>ensureCodeFormat\<close> returns that code, leaves the members table as it was (no
  \<open>UPDATE\<close>) and draws nothing from the random source; a second call, on the state
  the first one left, returns the same value and again changes nothing. This holds
  for the function of the screening bot and for that of the code-format bot.
\<close>

theorem ensureCodeFormat_conforming_unchanged:
  assumes "filter (\<lambda>m. tg_id m = tgId) ms = r # rest"
    and "my_code r = Some c" and "CODE_REGEX_test c"
  shows "ensureCodeFormat tgId ms g = (Inr (Some c), ms, g) \<and>
         ensureCodeFormat_fmt tgId ms g = (Inr (Some c), ms, g) \<and>
         (case ensureCodeFormat tgId ms g of
            (v, ms1, g1) \<Rightarrow> ensureCodeFormat tgId ms1 g1 = (v, ms, g)) \<and>
         (case ensureCodeFormat_fmt tgId ms g of
            (v, ms1, g1) \<Rightarrow> ensureCodeFormat_fmt tgId ms1 g1 = (v, ms, g))"
  using ensureCodeFormat_with_conforming [OF assms]
  by (simp add: ensureCodeFormat_def ensureCodeFormat_fmt_def)

theorem ensureCodeFormat_conforming_unchanged_witness:
  "filter (\<lambda>m. tg_id m = 2)
     [\<lparr>tg_id = 1, my_code = None\<rparr>, \<lparr>tg_id = 2, my_code = Some (js ''K482913'')\<rparr>]
     = [\<lparr>tg_id = 2, my_code = Some (js ''K482913'')\<rparr>] \<and>
   CODE_REGEX_test (js ''K482913'') \<and>
   ensureCodeFormat 2
     [\<lparr>tg_id = 1, my_code = None\<rparr>, \<lparr>tg_id = 2, my_code = Some (js ''K482913'')\<rparr>] (\<lambda>i. i)
     = (Inr (Some (js ''K482913'')),
        [\<lparr>tg_id = 1, my_code = None\<rparr>, \<lparr>tg_id = 2, my_code = Some (js ''K482913'')\<rparr>], \<lambda>i. i) \<and>
   ensureCodeFormat_fmt 2
     [\<lparr>tg_id = 1, my_code = None\<rparr>, \<lparr>tg_id = 2, my_code = Some (js ''K482913'')\<rparr>] (\<lambda>i. i)
     = (Inr (Some (js ''K482913'')),
        [\<lparr>tg_id = 1, my_code = None\<rparr>, \<lparr>tg_id = 2, my_code = Some (js ''K482913'')\<rparr>], \<lambda>i. i)"
proof -
  let ?ms = "[\<lparr>tg_id = 1, my_code = None\<rparr>, \<lparr>tg_id = 2, my_code = Some (js ''K482913'')\<rparr>]"
  have f: "filter (\<lambda>m. tg_id m = 2) ?ms = \<lparr>tg_id = 2, my_code = Some (js ''K482913'')\<rparr> # []"
    by simp
  have c: "my_code \<lparr>tg_id = 2, my_code = Some (js ''K482913'')\<rparr> = Some (js ''K482913'')"
    by simp
  have m: "CODE_REGEX_test (js ''K482913'')"
    by (simp add: CODE_REGEX_test_def js_def is_AZ_def is_09_def)
  from ensureCodeFormat_conforming_unchanged [OF f c m, of "\<lambda>i. i"] f m
  show ?thesis by simp
qed

section \<open>Start-screening for a decided member\<close>

lemma js_passed_neq_failed: "js ''failed'' \<noteq> js ''passed''"
  by (simp add: js_def)

text \<open>
  Claim C9. For a registered member whose screening status is \<open>passed\<close> or \<open>failed\<close>,
  start-screening sends the terminal message of that status and nothing else: the
  state after the call is the state before it with that one message added, so no
  session is created, no question is sent and no free-text answer is awaited. For a
  user with no member row it sends the request to register first, also changing
  nothing else.
\<close>

theorem startScreeningWithCode_terminal:
  "(filter (\<lambda>m. tg_id m = from_id c) (members s) = r # rest \<and> screening_status r = js ''passed''
      \<longrightarrow> startScreeningWithCode c s
            = s\<lparr>outbox := outbox s @ [Reply AlreadyAccepted MemberKeyboard]\<rparr>) \<and>
   (filter (\<lambda>m. tg_id m = from_id c) (members s) = r # rest \<and> screening_status r = js ''failed''
      \<longrightarrow> startScreeningWithCode c s
            = s\<lparr>outbox := outbox s @ [Reply RejectedTalkToAdmin MemberKeyboard]\<rparr>) \<and>
   (filter (\<lambda>m. tg_id m = from_id c) (members s) = []
      \<longrightarrow> startScreeningWithCode c s
            = s\<lparr>outbox := outbox s @ [Reply RegisterFirst StartKeyboard]\<rparr>)"
  by (simp add: startScreeningWithCode_def send_def js_passed_neq_failed)


theorem startScreeningWithCode_terminal_witness:
  "startScreeningWithCode \<lparr>from_id = 7, now = 0\<rparr> decided_state
     = decided_state\<lparr>outbox := outbox decided_state @ [Reply AlreadyAccepted MemberKeyboard]\<rparr> \<and>
   startScreeningWithCode \<lparr>from_id = 8, now = 0\<rparr> decided_state
     = decided_state\<lparr>outbox := outbox decided_state @ [Reply RejectedTalkToAdmin MemberKeyboard]\<rparr> \<and>
   startScreeningWithCode \<lparr>from_id = 9, now = 0\<rparr> decided_state
     = decided_state\<lparr>outbox := outbox decided_state @ [Reply RegisterFirst StartKeyboard]\<rparr> \<and>
   screening_sessions (startScreeningWithCode \<lparr>from_id = 7, now = 0\<rparr> decided_state) = []"
proof -
  let ?m7 = "\<lparr>tg_id = 7, my_code = Some (js ''K482913''), screening_status = js ''passed''\<rparr>"
  let ?m8 = "\<lparr>tg_id = 8, my_code = Some (js ''B111111''), screening_status = js ''failed''\<rparr>"
  have f7: "filter (\<lambda>m. tg_id m = from_id \<lparr>from_id = 7, now = 0\<rparr>) (members decided_state) = ?m7 # []
      \<and> screening_status ?m7 = js ''passed''"
    by (simp add: decided_state_def)
  have f8: "filter (\<lambda>m. tg_id m = from_id \<lparr>from_id = 8, now = 0\<rparr>) (members decided_state) = ?m8 # []
      \<and> screening_status ?m8 = js ''failed''"
    by (simp add: decided_state_def)
  have f9: "filter (\<lambda>m. tg_id m = from_id \<lparr>from_id = 9, now = 0\<rparr>) (members decided_state) = []"
    by (simp add: decided_state_def)
  note t = startScreeningWithCode_terminal
  have a: "startScreeningWithCode \<lparr>from_id = 7, now = 0\<rparr> decided_state
     = decided_state\<lparr>outbox := outbox decided_state @ [Reply AlreadyAccepted MemberKeyboard]\<rparr>"
    using t [of "\<lparr>from_id = 7, now = 0\<rparr>" decided_state ?m7 "[]"] f7 by blast
  have b: "startScreeningWithCode \<lparr>from_id = 8, now = 0\<rparr> decided_state
     = decided_state\<lparr>outbox := outbox decided_state @ [Reply RejectedTalkToAdmin MemberKeyboard]\<rparr>"
    using t [of "\<lparr>from_id = 8, now = 0\<rparr>" decided_state ?m8 "[]"] f8 by blast
  have c: "startScreeningWithCode \<lparr>from_id = 9, now = 0\<rparr> decided_state
     = decided_state\<lparr>outbox := outbox decided_state @ [Reply RegisterFirst StartKeyboard]\<rparr>"
    using t [of "\<lparr>from_id = 9, now = 0\<rparr>" decided_state] f9 by blast
  have d: "screening_sessions (startScreeningWithCode \<lparr>from_id = 7, now = 0\<rparr> decided_state) = []"
    unfolding a by (simp add: decided_state_def)
  from a b c d show ?thesis by blast
qed

section \<open>Free-text answers\<close>

lemma askQuestion_answers:
  "screening_answers (snd (askQuestion c sid qo s)) = screening_answers s"
  by (simp add: askQuestion_def send_def Let_def split: option.split sum.split)

lemma insert_answer_answers:
  "screening_answers (snd (insert_answer ocdn sid qid a chosen s)) = screening_answers s \<or>
   screening_answers (snd (insert_answer ocdn sid qid a chosen s)) =
     screening_answers s @
       [\<lparr>a_id = screening_answers_seq s + 1, session_id = sid, question_id = qid,
         answer_text = map_option utf8_roundtrip a, chosen_index = chosen, is_correct = None\<rparr>]"
  by (simp add: insert_answer_def Let_def)

lemma insert_answer_accepted:
  assumes "int4_ok qid" and "case chosen of None \<Rightarrow> True | Some i \<Rightarrow> int4_ok i"
    and "case a of None \<Rightarrow> True | Some t \<Rightarrow> 0 \<notin> set t"
    and "\<not> list_ex (\<lambda>r. a_id r = screening_answers_seq s + 1) (screening_answers s)"
    and "list_ex (\<lambda>r. s_id r = sid) (screening_sessions s)"
    and "list_ex (\<lambda>q. q_id q = qid) (screening_questions s)"
  shows "insert_answer ocdn sid qid a chosen s =
     (Inr (), s\<lparr>screening_answers_seq := screening_answers_seq s + 1,
                screening_answers := screening_answers s @
                  [\<lparr>a_id = screening_answers_seq s + 1, session_id = sid, question_id = qid,
                    answer_text = map_option utf8_roundtrip a, chosen_index = chosen,
                    is_correct = None\<rparr>]\<rparr>)"
  using assms by (simp add: insert_answer_def Let_def split: option.splits)

lemma insert_answer_nul:
  "0 \<in> set t \<Longrightarrow>
   screening_answers (snd (insert_answer ocdn sid qid (Some t) chosen s)) = screening_answers s"
  by (simp add: insert_answer_def)

lemma on_text_answers:
  assumes "awaitingText s (from_id c) = Some (sid, qid)"
  shows "screening_answers (snd (on_text c msg s)) =
           screening_answers
             (snd (insert_answer False sid qid (Some (take 2000 msg)) None
                (s\<lparr>awaitingText := (awaitingText s)(from_id c := None)\<rparr>)))"
proof -
  let ?s1 = "s\<lparr>awaitingText := (awaitingText s)(from_id c := None)\<rparr>"
  obtain r s2 where i: "insert_answer False sid qid (Some (take 2000 msg)) None ?s1 = (r, s2)"
    by (cases "insert_answer False sid qid (Some (take 2000 msg)) None ?s1")
  show ?thesis
  proof (cases r)
    case (Inl e)
    with i assms show ?thesis by (simp add: on_text_def)
  next
    case (Inr u)
    with i assms show ?thesis by (simp add: on_text_def askQuestion_answers)
  qed
qed

subsection \<open>The text as stored\<close>

lemma utf8_roundtrip_plain:
  "\<not> is_high_surrogate u \<Longrightarrow> \<not> is_low_surrogate u \<Longrightarrow>
   utf8_roundtrip (u # t) = u # utf8_roundtrip t"
  by (cases t) simp_all

lemma utf8_roundtrip_replicate:
  "\<not> is_high_surrogate u \<Longrightarrow> \<not> is_low_surrogate u \<Longrightarrow>
   utf8_roundtrip (replicate n u @ t) = replicate n u @ utf8_roundtrip t"
  by (induction n) (simp_all add: utf8_roundtrip_plain)

lemma utf8_roundtrip_length: "length (utf8_roundtrip t) = length t"
  by (induction t rule: utf8_roundtrip.induct) simp_all

lemma utf8_roundtrip_well_formed: "well_formed_utf16 t \<Longrightarrow> utf8_roundtrip t = t"
  by (induction t rule: utf8_roundtrip.induct) (auto split: if_splits)

lemma no_surrogate_well_formed:
  "\<forall>u \<in> set t. \<not> is_high_surrogate u \<and> \<not> is_low_surrogate u \<Longrightarrow> well_formed_utf16 t"
  by (induction t rule: well_formed_utf16.induct) simp_all

lemma utf8_roundtrip_nth:
  "i < length t \<Longrightarrow>
   utf8_roundtrip t ! i = t ! i \<or>
   ((is_high_surrogate (t ! i) \<or> is_low_surrogate (t ! i)) \<and> utf8_roundtrip t ! i = 0xFFFD)"
proof (induction t arbitrary: i rule: utf8_roundtrip.induct)
  case 1
  then show ?case by simp
next
  case (2 u)
  then show ?case by simp
next
  case (3 u v rest)
  show ?case
  proof (cases "is_high_surrogate u \<and> is_low_surrogate v")
    case True
    show ?thesis
    proof (cases i)
      case 0
      with True show ?thesis by simp
    next
      case (Suc k)
      show ?thesis
      proof (cases k)
        case 0
        with Suc True show ?thesis by simp
      next
        case (Suc m)
        with \<open>i = Suc k\<close> "3.prems" have "m < length rest" by simp
        from "3.IH"(1) [OF True this] True \<open>i = Suc k\<close> Suc show ?thesis by simp
      qed
    qed
  next
    case False
    show ?thesis
    proof (cases i)
      case 0
      with False show ?thesis by auto
    next
      case (Suc k)
      with "3.prems" have k: "k < length (v # rest)" by simp
      show ?thesis
      proof (cases "is_high_surrogate u \<or> is_low_surrogate u")
        case True
        from "3.IH"(2) [OF False True k] False True Suc show ?thesis by auto
      next
        case no: False
        from "3.IH"(3) [OF False no k] False no Suc show ?thesis by auto
      qed
    qed
  qed
qed

text \<open>
  Claim C10, as amended. When a free-text answer is awaited from the user, the value
  the text handler hands to the insert is the first 2000 code units of the message:
  the message itself when it has at most 2000, its prefix of length 2000 otherwise.
  The only row the handler can add has as \<open>answer_text\<close> that value as the storage
  layer keeps it: the same string when every surrogate in it is part of a pair, and
  otherwise the string of the same length with U+FFFD in place of each lone surrogate
  (a cut at 2000 that falls inside a pair leaves one). The row is added whenever the
  storage layer accepts the insert (the question id fits the column, the value has no
  U+0000, the key drawn from the sequence is free, the session and the question
  exist); a value with U+0000 is refused and no row is added.
\<close>

theorem on_text_stores_sliced_text:
  assumes "awaitingText s (from_id c) = Some (sid, qid)"
  shows "(screening_answers (snd (on_text c msg s)) = screening_answers s \<or>
          screening_answers (snd (on_text c msg s)) =
            screening_answers s @
              [\<lparr>a_id = screening_answers_seq s + 1, session_id = sid, question_id = qid,
                answer_text = Some (utf8_roundtrip (take 2000 msg)), chosen_index = None,
                is_correct = None\<rparr>]) \<and>
         (int4_ok qid \<and> 0 \<notin> set (take 2000 msg) \<and>
          \<not> list_ex (\<lambda>r. a_id r = screening_answers_seq s + 1) (screening_answers s) \<and>
          list_ex (\<lambda>r. s_id r = sid) (screening_sessions s) \<and>
          list_ex (\<lambda>q. q_id q = qid) (screening_questions s) \<longrightarrow>
          screening_answers (snd (on_text c msg s)) =
            screening_answers s @
              [\<lparr>a_id = screening_answers_seq s + 1, session_id = sid, question_id = qid,
                answer_text = Some (utf8_roundtrip (take 2000 msg)), chosen_index = None,
                is_correct = None\<rparr>]) \<and>
         (0 \<in> set (take 2000 msg) \<longrightarrow>
          screening_answers (snd (on_text c msg s)) = screening_answers s) \<and>
         (well_formed_utf16 (take 2000 msg) \<longrightarrow>
          utf8_roundtrip (take 2000 msg) = take 2000 msg) \<and>
         length (utf8_roundtrip (take 2000 msg)) = length (take 2000 msg) \<and>
         (\<forall>i < length (take 2000 msg).
            utf8_roundtrip (take 2000 msg) ! i = take 2000 msg ! i \<or>
            ((is_high_surrogate (take 2000 msg ! i) \<or> is_low_surrogate (take 2000 msg ! i)) \<and>
             utf8_roundtrip (take 2000 msg) ! i = 0xFFFD)) \<and>
         (length msg \<le> 2000 \<longrightarrow> take 2000 msg = msg) \<and>
         (2000 < length msg \<longrightarrow>
            length (take 2000 msg) = 2000 \<and> msg = take 2000 msg @ drop 2000 msg)"
proof -
  let ?s1 = "s\<lparr>awaitingText := (awaitingText s)(from_id c := None)\<rparr>"
  note a = on_text_answers [OF assms, of msg]
  have one: "screening_answers (snd (on_text c msg s)) = screening_answers s \<or>
          screening_answers (snd (on_text c msg s)) =
            screening_answers s @
              [\<lparr>a_id = screening_answers_seq s + 1, session_id = sid, question_id = qid,
                answer_text = Some (utf8_roundtrip (take 2000 msg)), chosen_index = None,
                is_correct = None\<rparr>]"
    using insert_answer_answers [of False sid qid "Some (take 2000 msg)" None ?s1]
    unfolding a by simp
  have two: "screening_answers (snd (on_text c msg s)) =
            screening_answers s @
              [\<lparr>a_id = screening_answers_seq s + 1, session_id = sid, question_id = qid,
                answer_text = Some (utf8_roundtrip (take 2000 msg)), chosen_index = None,
                is_correct = None\<rparr>]"
    if "int4_ok qid" and "0 \<notin> set (take 2000 msg)"
      and "\<not> list_ex (\<lambda>r. a_id r = screening_answers_seq s + 1) (screening_answers s)"
      and "list_ex (\<lambda>r. s_id r = sid) (screening_sessions s)"
      and "list_ex (\<lambda>q. q_id q = qid) (screening_questions s)"
    unfolding a
    using that by (subst insert_answer_accepted) simp_all
  have three: "screening_answers (snd (on_text c msg s)) = screening_answers s"
    if "0 \<in> set (take 2000 msg)"
    unfolding a using insert_answer_nul [OF that, of False sid qid None ?s1] by simp
  have four: "\<forall>i < length (take 2000 msg).
            utf8_roundtrip (take 2000 msg) ! i = take 2000 msg ! i \<or>
            ((is_high_surrogate (take 2000 msg ! i) \<or> is_low_surrogate (take 2000 msg ! i)) \<and>
             utf8_roundtrip (take 2000 msg) ! i = 0xFFFD)"
    using utf8_roundtrip_nth [of _ "take 2000 msg"] by blast
  from one two three four utf8_roundtrip_well_formed [of "take 2000 msg"]
    utf8_roundtrip_length [of "take 2000 msg"]
  show ?thesis by simp
qed

lemma x_not_surrogate: "\<not> is_high_surrogate 120 \<and> \<not> is_low_surrogate 120"
  by (simp add: is_high_surrogate_def is_low_surrogate_def)

lemma await_state_accepts:
  "awaitingText await_state (from_id demo_ctx) = Some (1, 2) \<and> int4_ok 2 \<and>
   \<not> list_ex (\<lambda>r. a_id r = screening_answers_seq await_state + 1)
       (screening_answers await_state) \<and>
   list_ex (\<lambda>r. s_id r = 1) (screening_sessions await_state) \<and>
   list_ex (\<lambda>q. q_id q = 2) (screening_questions await_state) \<and>
   screening_answers await_state = [] \<and> screening_answers_seq await_state = 0"
  by (simp add: await_state_def demo_state_def demo_ctx_def demo_questions_def int4_ok_def)

theorem on_text_stores_sliced_text_witness:
  "awaitingText await_state (from_id demo_ctx) = Some (1, 2) \<and>
   length long_text = 2004 \<and>
   well_formed_utf16 (take 2000 long_text) \<and>
   screening_answers (snd (on_text demo_ctx long_text await_state)) =
     [\<lparr>a_id = 1, session_id = 1, question_id = 2, answer_text = Some (replicate 2000 120),
       chosen_index = None, is_correct = None\<rparr>] \<and>
   screening_answers (snd (on_text demo_ctx (js ''yes'') await_state)) =
     [\<lparr>a_id = 1, session_id = 1, question_id = 2, answer_text = Some (js ''yes''),
       chosen_index = None, is_correct = None\<rparr>] \<and>
   0 \<in> set (take 2000 nul_text) \<and>
   screening_answers (snd (on_text demo_ctx nul_text await_state)) = []"
proof -
  note ok = await_state_accepts
  from ok have aw: "awaitingText await_state (from_id demo_ctx) = Some (1, 2)" by simp
  have len: "length long_text = 2004"
    by (simp add: long_text_def js_def)
  have tk: "take 2000 long_text = replicate 2000 120"
    by (simp add: long_text_def)
  have wf: "well_formed_utf16 (take 2000 long_text)"
    unfolding tk using x_not_surrogate by (intro no_surrogate_well_formed) simp
  have nz: "0 \<notin> set (take 2000 long_text)"
    unfolding tk by simp
  have sh: "take 2000 (js ''yes'') = js ''yes''"
    by (simp add: js_def)
  have wfs: "well_formed_utf16 (js ''yes'')"
    by (simp add: js_def is_high_surrogate_def is_low_surrogate_def)
  have nzs: "0 \<notin> set (js ''yes'')"
    by (simp add: js_def)
  have nul: "0 \<in> set (take 2000 nul_text)"
    by (simp add: nul_text_def js_def)
  note t = on_text_stores_sliced_text [OF aw]
  from t [of long_text] ok nz wf tk
  have l: "screening_answers (snd (on_text demo_ctx long_text await_state)) =
     [\<lparr>a_id = 1, session_id = 1, question_id = 2, answer_text = Some (replicate 2000 120),
       chosen_index = None, is_correct = None\<rparr>]"
    by simp
  from t [of "js ''yes''"] ok nzs wfs sh
  have s: "screening_answers (snd (on_text demo_ctx (js ''yes'') await_state)) =
     [\<lparr>a_id = 1, session_id = 1, question_id = 2, answer_text = Some (js ''yes''),
       chosen_index = None, is_correct = None\<rparr>]"
    by simp
  from t [of nul_text] nul ok
  have z: "screening_answers (snd (on_text demo_ctx nul_text await_state)) = []"
    by simp
  from aw len wf l s nul z show ?thesis by blast
qed

text \<open>
  The claim as stated fails: in a message of 1999 times \<open>x\<close> followed by the
  surrogate pair of U+1F600, the cut at 2000 falls inside the pair; the text stored
  ends with U+FFFD and is no prefix of the message. For a message with U+0000 no
  row is stored at all.
\<close>

theorem on_text_cut_surrogate_counterexample:
  "take 2000 emoji_text = replicate 1999 120 @ [0xD83D] \<and>
   screening_answers (snd (on_text demo_ctx emoji_text await_state)) =
     [\<lparr>a_id = 1, session_id = 1, question_id = 2,
       answer_text = Some (replicate 1999 120 @ [0xFFFD]),
       chosen_index = None, is_correct = None\<rparr>] \<and>
   screening_answers (snd (on_text demo_ctx nul_text await_state)) = []"
proof -
  note ok = await_state_accepts
  from ok have aw: "awaitingText await_state (from_id demo_ctx) = Some (1, 2)" by simp
  let ?s1 = "await_state\<lparr>awaitingText := (awaitingText await_state)(from_id demo_ctx := None)\<rparr>"
  have tk: "take 2000 emoji_text = replicate 1999 120 @ [0xD83D]"
    by (simp add: emoji_text_def)
  have nz: "0 \<notin> set (take 2000 emoji_text)"
    unfolding tk by simp
  have rt: "utf8_roundtrip (take 2000 emoji_text) = replicate 1999 120 @ [0xFFFD]"
    unfolding tk using x_not_surrogate
    by (simp add: utf8_roundtrip_replicate is_high_surrogate_def)
  have "screening_answers (snd (on_text demo_ctx emoji_text await_state)) =
     screening_answers (snd (insert_answer False 1 2 (Some (take 2000 emoji_text)) None ?s1))"
    by (rule on_text_answers [OF aw])
  also have "\<dots> = [\<lparr>a_id = 1, session_id = 1, question_id = 2,
       answer_text = Some (replicate 1999 120 @ [0xFFFD]),
       chosen_index = None, is_correct = None\<rparr>]"
    using ok nz by (subst insert_answer_accepted) (simp_all add: rt)
  finally have e: "screening_answers (snd (on_text demo_ctx emoji_text await_state)) =
     [\<lparr>a_id = 1, session_id = 1, question_id = 2,
       answer_text = Some (replicate 1999 120 @ [0xFFFD]),
       chosen_index = None, is_correct = None\<rparr>]" .
  have nul: "0 \<in> set (take 2000 nul_text)"
    by (simp add: nul_text_def js_def)
  have "screening_answers (snd (on_text demo_ctx nul_text await_state)) =
     screening_answers (snd (insert_answer False 1 2 (Some (take 2000 nul_text)) None ?s1))"
    by (rule on_text_answers [OF aw])
  also have "\<dots> = []"
    using insert_answer_nul [OF nul, of False 1 2 None ?s1] ok by simp
  finally have z: "screening_answers (snd (on_text demo_ctx nul_text await_state)) = []" .
  from tk e z show ?thesis by blast
qed

section \<open>Score and grade\<close>

lemma sum_chosen_plus_one:
  "sum_list (map (\<lambda>i. i + 1) (List.map_filter chosen_index rows)) =
   sum_list (map (\<lambda>r. case chosen_index r of None \<Rightarrow> 0 | Some i \<Rightarrow> i + 1) rows)"
  by (induction rows) (simp_all add: List.map_filter_simps split: option.split)

lemma set_map_filter_chosen:
  "i \<in> set (List.map_filter chosen_index rows) \<longleftrightarrow> (\<exists>r \<in> set rows. chosen_index r = Some i)"
  by (induction rows) (auto simp: List.map_filter_simps split: option.splits)

lemma score_query_sum:
  assumes "\<forall>r \<in> set (screening_answers s). session_id r = sid \<longrightarrow>
             (case chosen_index r of None \<Rightarrow> True | Some i \<Rightarrow> int4_ok (i + 1))"
    and "int4_ok sc"
    and "sc = sum_list (map (\<lambda>r. case chosen_index r of None \<Rightarrow> 0 | Some i \<Rightarrow> i + 1)
                (filter (\<lambda>r. session_id r = sid) (screening_answers s)))"
  shows "score_query sid s = Inr sc"
proof -
  let ?rows = "filter (\<lambda>r. session_id r = sid) (screening_answers s)"
  have "\<not> list_ex (\<lambda>i. \<not> int4_ok (i + 1)) (List.map_filter chosen_index ?rows)"
  proof
    assume "list_ex (\<lambda>i. \<not> int4_ok (i + 1)) (List.map_filter chosen_index ?rows)"
    then obtain i where i: "i \<in> set (List.map_filter chosen_index ?rows)" "\<not> int4_ok (i + 1)"
      by (auto simp: list_ex_iff)
    then obtain r where "r \<in> set ?rows" "chosen_index r = Some i"
      by (auto simp: set_map_filter_chosen)
    with assms(1) have "int4_ok (i + 1)" by fastforce
    with i(2) show False by simp
  qed
  then show ?thesis
    using assms(2,3) by (simp add: score_query_def Let_def sum_chosen_plus_one)
qed

lemma grade_of_thresholds:
  "fst (grade_of n) =
     (if 40 \<le> n then js ''A'' else if 32 \<le> n then js ''B''
      else if 25 \<le> n then js ''C'' else js ''D'')"
  by (simp add: grade_of_def)

text \<open>
  Claim C1. When \<open>nextQuestion\<close> finds no unanswered question, \<open>askQuestion\<close> finishes
  the session: the score is the sum, over the session's answer rows, of chosen index
  + 1 for a row with a chosen index and of nothing for a row without one (a free-text
  answer); it is written with the grade and the finishing time to the session row, the
  grade is written to the member's status, and the reply shows the score over a
  maximum of five times the number of catalog questions. The grade is A from 40, B
  from 32, C from 25 and D below, so 44, 35, 27 and 10 give A, B, C and D. The score
  is computed in 32-bit integers, as the storage layer does: every chosen index + 1
  and the sum are assumed to fit.
\<close>

theorem askQuestion_finish_score_and_grade:
  assumes "nextQuestion sid s = None"
    and "\<forall>r \<in> set (screening_answers s). session_id r = sid \<longrightarrow>
           (case chosen_index r of None \<Rightarrow> True | Some i \<Rightarrow> int4_ok (i + 1))"
    and "int4_ok sc"
    and "sc = sum_list (map (\<lambda>r. case chosen_index r of None \<Rightarrow> 0 | Some i \<Rightarrow> i + 1)
                (filter (\<lambda>r. session_id r = sid) (screening_answers s)))"
  shows "askQuestion c sid (nextQuestion sid s) s =
           (Inr (),
            s\<lparr>screening_sessions :=
                 map (\<lambda>r. if s_id r = sid
                           then r\<lparr>finished_at := Some (now c), score := sc,
                                  result := Some (fst (grade_of sc))\<rparr>
                           else r) (screening_sessions s),
              members :=
                 map (\<lambda>m. if tg_id m = from_id c
                           then m\<lparr>screening_status := fst (grade_of sc)\<rparr> else m) (members s),
              outbox := outbox s @
                 [Reply (ResultText sc (int (length (screening_questions s)) * 5)
                           (fst (grade_of sc)) (snd (grade_of sc))) MemberKeyboard]\<rparr>) \<and>
         (\<forall>n. fst (grade_of n) =
                (if 40 \<le> n then js ''A'' else if 32 \<le> n then js ''B''
                 else if 25 \<le> n then js ''C'' else js ''D'')) \<and>
         map (\<lambda>n. fst (grade_of n)) [44, 35, 27, 10] = [js ''A'', js ''B'', js ''C'', js ''D'']"
proof -
  have q: "score_query sid s = Inr sc"
    using assms(2,3,4) by (rule score_query_sum)
  have "askQuestion c sid None s =
           (Inr (),
            s\<lparr>screening_sessions :=
                 map (\<lambda>r. if s_id r = sid
                           then r\<lparr>finished_at := Some (now c), score := sc,
                                  result := Some (fst (grade_of sc))\<rparr>
                           else r) (screening_sessions s),
              members :=
                 map (\<lambda>m. if tg_id m = from_id c
                           then m\<lparr>screening_status := fst (grade_of sc)\<rparr> else m) (members s),
              outbox := outbox s @
                 [Reply (ResultText sc (int (length (screening_questions s)) * 5)
                           (fst (grade_of sc)) (snd (grade_of sc))) MemberKeyboard]\<rparr>)"
    by (simp add: askQuestion_def q Let_def send_def)
  then show ?thesis
    unfolding assms(1) by (simp add: grade_of_thresholds)
qed

theorem askQuestion_finish_score_and_grade_witness:
  "nextQuestion 1 answered_state = None \<and>
   askQuestion demo_ctx 1 (nextQuestion 1 answered_state) answered_state =
     (Inr (),
      answered_state
        \<lparr>screening_sessions :=
           [\<lparr>s_id = 1, s_tg_id = 7, finished_at = Some 1000, score = 5, result = Some (js ''D'')\<rparr>],
         members :=
           [\<lparr>tg_id = 7, my_code = Some (js ''K482913''), screening_status = js ''D''\<rparr>],
         outbox := [Reply (ResultText 5 10 (js ''D'') FocusOnBasics) MemberKeyboard]\<rparr>)"
proof -
  have n: "nextQuestion 1 answered_state = None"
    by (simp add: nextQuestion_def answered_state_def demo_state_def demo_questions_def)
  have f: "\<forall>r \<in> set (screening_answers answered_state). session_id r = 1 \<longrightarrow>
           (case chosen_index r of None \<Rightarrow> True | Some i \<Rightarrow> int4_ok (i + 1))"
    by (simp add: answered_state_def demo_state_def int4_ok_def)
  have i: "int4_ok 5" by (simp add: int4_ok_def)
  have e: "5 = sum_list (map (\<lambda>r. case chosen_index r of None \<Rightarrow> 0 | Some i \<Rightarrow> i + 1)
                (filter (\<lambda>r. session_id r = 1) (screening_answers answered_state)))"
    by (simp add: answered_state_def demo_state_def)
  have g: "grade_of 5 = (js ''D'', FocusOnBasics)" by (simp add: grade_of_def)
  from askQuestion_finish_score_and_grade [OF n f i e, of demo_ctx] n g
  show ?thesis
    by (simp add: answered_state_def demo_state_def demo_questions_def demo_ctx_def)
qed

section \<open>Question selection\<close>

lemma find_sorted_least:
  "sorted (map f xs) \<Longrightarrow> find P xs = Some x \<Longrightarrow> y \<in> set xs \<Longrightarrow> P y \<Longrightarrow> f x \<le> f y"
proof (induction xs)
  case Nil
  then show ?case by simp
next
  case (Cons a xs)
  show ?case
  proof (cases "P a")
    case True
    with Cons.prems(2) have "x = a" by simp
    with Cons.prems(1,3) show ?thesis by auto
  next
    case False
    with Cons.prems have "find P xs = Some x" "y \<in> set xs" "sorted (map f xs)" by auto
    with Cons.IH Cons.prems(4) show ?thesis by blast
  qed
qed

lemma find_Some_member: "find P xs = Some x \<Longrightarrow> x \<in> set xs \<and> P x"
  by (induction xs) (auto split: if_splits)

lemma answered_in_set:
  "answered_in sid s qid \<longleftrightarrow>
   qid \<in> set (map question_id (filter (\<lambda>r. session_id r = sid) (screening_answers s)))"
  by (auto simp: answered_in_def list_ex_iff)

lemma nextQuestion_find:
  "nextQuestion sid s =
     find (\<lambda>q. \<not> answered_in sid s (q_id q)) (sort_key q_id (screening_questions s))"
  by (simp add: nextQuestion_def Let_def answered_in_set)

lemma nextQuestion_Some:
  assumes "nextQuestion sid s = Some q"
  shows "q \<in> set (screening_questions s)" and "\<not> answered_in sid s (q_id q)"
    and "\<And>q'. q' \<in> set (screening_questions s) \<Longrightarrow> \<not> answered_in sid s (q_id q')
           \<Longrightarrow> q_id q \<le> q_id q'"
proof -
  let ?qs = "sort_key q_id (screening_questions s)"
  from assms have f: "find (\<lambda>q. \<not> answered_in sid s (q_id q)) ?qs = Some q"
    by (simp add: nextQuestion_find)
  from find_Some_member [OF f] show "q \<in> set (screening_questions s)"
    and "\<not> answered_in sid s (q_id q)" by simp_all
  fix q'
  assume "q' \<in> set (screening_questions s)" "\<not> answered_in sid s (q_id q')"
  then have "q' \<in> set ?qs" by simp
  with find_sorted_least [of q_id ?qs _ q q', OF _ f] \<open>\<not> answered_in sid s (q_id q')\<close>
  show "q_id q \<le> q_id q'" by simp
qed

lemma nextQuestion_None:
  "nextQuestion sid s = None \<longleftrightarrow>
   (\<forall>q \<in> set (screening_questions s). answered_in sid s (q_id q))"
  by (auto simp: nextQuestion_find find_None_iff)


subsection \<open>Handlers only add answer rows\<close>

lemma getOrCreateSession_answers:
  "screening_answers (snd (getOrCreateSession tgId s)) = screening_answers s"
  by (simp add: getOrCreateSession_def Let_def split: list.split)

lemma insert_answer_extends:
  "\<exists>new. screening_answers (snd (insert_answer ocdn sid qid a chosen s)) = screening_answers s @ new"
  using insert_answer_answers [of ocdn sid qid a chosen s] by auto

lemma verifyCodeAndBegin_answers:
  "screening_answers (snd (verifyCodeAndBegin c t s)) = screening_answers s"
proof -
  obtain r s1 where g: "getOrCreateSession (from_id c) s = (r, s1)"
    by (cases "getOrCreateSession (from_id c) s")
  then have a: "screening_answers s1 = screening_answers s"
    using getOrCreateSession_answers [of "from_id c" s] by simp
  show ?thesis
    by (cases r)
      (simp_all add: verifyCodeAndBegin_def send_def g a askQuestion_answers split: list.split)
qed

lemma on_callback_query_extends:
  "\<exists>new. screening_answers (on_callback_query c d s) = screening_answers s @ new"
proof (cases d)
  case OtherData
  then show ?thesis by (simp add: on_callback_query_def send_def)
next
  case (AnsData qid chosen)
  obtain r s1 where g: "getOrCreateSession (from_id c) s = (r, s1)"
    by (cases "getOrCreateSession (from_id c) s")
  then have a: "screening_answers s1 = screening_answers s"
    using getOrCreateSession_answers [of "from_id c" s] by simp
  show ?thesis
  proof (cases r)
    case (Inl e)
    with AnsData g a show ?thesis by (simp add: on_callback_query_def send_def)
  next
    case (Inr sid)
    obtain r2 s2 where i: "insert_answer True sid qid None (Some chosen) s1 = (r2, s2)"
      by (cases "insert_answer True sid qid None (Some chosen) s1")
    from insert_answer_extends [of True sid qid None "Some chosen" s1] i a
    obtain new where n: "screening_answers s2 = screening_answers s @ new" by auto
    show ?thesis
    proof (cases r2)
      case (Inl e)
      with AnsData g Inr i n show ?thesis by (simp add: on_callback_query_def send_def)
    next
      case r2: (Inr u)
      let ?s3 = "send (AnswerCbQuery (Some AnswerRecorded)) s2"
      obtain r4 s4 where k: "askQuestion c sid (nextQuestion sid ?s3) ?s3 = (r4, s4)"
        by (cases "askQuestion c sid (nextQuestion sid ?s3) ?s3")
      then have "screening_answers s4 = screening_answers ?s3"
        using askQuestion_answers [of c sid "nextQuestion sid ?s3" ?s3] by simp
      then have s4: "screening_answers s4 = screening_answers s @ new"
        using n by (simp add: send_def)
      from AnsData g Inr i r2 k s4 show ?thesis
        by (cases r4) (simp_all add: on_callback_query_def Let_def send_def)
    qed
  qed
qed

lemma on_text_extends:
  "\<exists>new. screening_answers (snd (on_text c t s)) = screening_answers s @ new"
proof (cases "awaitingText s (from_id c)")
  case None
  then show ?thesis by (simp add: on_text_def)
next
  case (Some p)
  obtain sid qid where p: "p = (sid, qid)" by (cases p)
  from on_text_answers [of s c sid qid t] Some p
    insert_answer_extends [of False sid qid "Some (take 2000 t)" None
      "s\<lparr>awaitingText := (awaitingText s)(from_id c := None)\<rparr>"]
  show ?thesis by simp
qed

lemma handle_extends:
  "\<exists>new. screening_answers (handle e s) = screening_answers s @ new"
proof (cases e)
  case (StartScreening c)
  then show ?thesis
    by (simp add: startScreeningWithCode_def send_def split: list.split)
next
  case (TextMessage c t)
  then show ?thesis
    using on_text_extends [of c t s] by (simp add: verifyCodeAndBegin_answers)
next
  case (ButtonPress c d)
  then show ?thesis using on_callback_query_extends [of c d s] by simp
qed

lemma run_extends:
  "\<exists>new. screening_answers (run es s) = screening_answers s @ new"
proof (induction es arbitrary: s)
  case Nil
  then show ?case by simp
next
  case (Cons e es)
  from handle_extends [of e s] obtain n1
    where n1: "screening_answers (handle e s) = screening_answers s @ n1" by blast
  from Cons [of "handle e s"] obtain n2
    where "screening_answers (run es (handle e s)) = screening_answers (handle e s) @ n2" by blast
  with n1 show ?case by simp
qed

lemma answered_in_run:
  "answered_in sid s qid \<Longrightarrow> answered_in sid (run es s) qid"
  using run_extends [of es s] by (auto simp: answered_in_def list_ex_iff)

text \<open>
  Claim C4, as amended. \<open>nextQuestion\<close> is a function of the session id, the answer
  rows and the catalog. It returns a question of the catalog that has no answer row
  in the session and whose id is the least among the catalog questions without one
  (the first in ascending id order); it returns the null signal exactly when every
  catalog question has an answer row in the session. Consequently a question that has
  an answer row in the session is never selected again in that session, whatever
  updates follow. A question that has none yet can be asked more than once, as the
  example after the theorem shows.
\<close>

theorem nextQuestion_first_unanswered:
  "(nextQuestion sid s = Some q \<longrightarrow>
      q \<in> set (screening_questions s) \<and> \<not> answered_in sid s (q_id q) \<and>
      (\<forall>q' \<in> set (screening_questions s). \<not> answered_in sid s (q_id q') \<longrightarrow> q_id q \<le> q_id q')) \<and>
   ((nextQuestion sid s = None) =
      (\<forall>q' \<in> set (screening_questions s). answered_in sid s (q_id q'))) \<and>
   (screening_answers s' = screening_answers s \<and> screening_questions s' = screening_questions s
      \<longrightarrow> nextQuestion sid s' = nextQuestion sid s) \<and>
   (answered_in sid s qid \<longrightarrow>
      (\<forall>es q'. nextQuestion sid (run es s) = Some q' \<longrightarrow> q_id q' \<noteq> qid))"
proof (intro conjI impI allI)
  assume a: "nextQuestion sid s = Some q"
  from nextQuestion_Some(1) [OF a] show "q \<in> set (screening_questions s)" .
  from nextQuestion_Some(2) [OF a] show "\<not> answered_in sid s (q_id q)" .
  from nextQuestion_Some(3) [OF a]
  show "\<forall>q' \<in> set (screening_questions s). \<not> answered_in sid s (q_id q') \<longrightarrow> q_id q \<le> q_id q'"
    by blast
next
  show "(nextQuestion sid s = None) =
      (\<forall>q' \<in> set (screening_questions s). answered_in sid s (q_id q'))"
    by (rule nextQuestion_None)
next
  assume "screening_answers s' = screening_answers s \<and> screening_questions s' = screening_questions s"
  then show "nextQuestion sid s' = nextQuestion sid s" by (simp add: nextQuestion_def)
next
  fix es q'
  assume a: "answered_in sid s qid" and n: "nextQuestion sid (run es s) = Some q'"
  from answered_in_run [OF a] have "answered_in sid (run es s) qid" .
  with nextQuestion_Some(2) [OF n] show "q_id q' \<noteq> qid" by auto
qed

theorem nextQuestion_first_unanswered_witness:
  "nextQuestion 1 half_state = Some (demo_questions ! 1) \<and>
   demo_questions ! 1 \<in> set (screening_questions half_state) \<and>
   \<not> answered_in 1 half_state (q_id (demo_questions ! 1)) \<and>
   nextQuestion 1 answered_state = None \<and>
   list_all (\<lambda>q. answered_in 1 answered_state (q_id q)) (screening_questions answered_state) \<and>
   answered_in 1 half_state 1 \<and>
   nextQuestion 1 (run [ButtonPress demo_ctx (AnsData 1 4)] half_state)
     = Some (demo_questions ! 1) \<and>
   q_id (demo_questions ! 1) \<noteq> 1"
proof -
  note t = nextQuestion_first_unanswered
  have n: "nextQuestion 1 half_state = Some (demo_questions ! 1)"
    by (simp add: nextQuestion_def half_state_def demo_state_def demo_questions_def)
  from t [of 1 half_state "demo_questions ! 1"] n
  have a: "demo_questions ! 1 \<in> set (screening_questions half_state)"
    and b: "\<not> answered_in 1 half_state (q_id (demo_questions ! 1))" by blast+
  have all: "\<forall>q' \<in> set (screening_questions answered_state). answered_in 1 answered_state (q_id q')"
    by (simp add: answered_in_def answered_state_def demo_state_def demo_questions_def)
  with t [of 1 answered_state] have none: "nextQuestion 1 answered_state = None" by blast
  from all have all': "list_all (\<lambda>q. answered_in 1 answered_state (q_id q))
      (screening_questions answered_state)"
    by (simp add: list_all_iff)
  have ans: "answered_in 1 half_state 1"
    by (simp add: answered_in_def half_state_def demo_state_def)
  have r: "nextQuestion 1 (run [ButtonPress demo_ctx (AnsData 1 4)] half_state)
     = Some (demo_questions ! 1)"
    by code_simp
  from t [of 1 half_state _ _ 1] ans r have d: "q_id (demo_questions ! 1) \<noteq> 1" by blast
  from n a b none all' ans r d show ?thesis by blast
qed

text \<open>
  The claim's last part fails as stated: member 7 sends the code twice without
  answering; both times \<open>verifyCodeAndBegin\<close> asks question 1, in the same session.
\<close>

theorem question_asked_twice_counterexample:
  "outbox (run [TextMessage demo_ctx (js ''K482913''), TextMessage demo_ctx (js ''K482913'')]
             demo_state) =
     [Reply (QuestionText (js ''Q1''))
        (InlineKeyboard [(js ''a'', 1, 0), (js ''b'', 1, 1), (js ''c'', 1, 2), (js ''d'', 1, 3),
                         (js ''e'', 1, 4)]),
      Reply (QuestionText (js ''Q1''))
        (InlineKeyboard [(js ''a'', 1, 0), (js ''b'', 1, 1), (js ''c'', 1, 2), (js ''d'', 1, 3),
                         (js ''e'', 1, 4)])] \<and>
   map s_id (screening_sessions
     (run [TextMessage demo_ctx (js ''K482913''), TextMessage demo_ctx (js ''K482913'')]
        demo_state)) = [1]"
  by code_simp

section \<open>Finishing and the next start-screening\<close>







section \<open>Repeated button presses\<close>

text \<open>
  Claim C2 says that a second multiple-choice submission for an answered question is
  ignored. The table has no unique index on the pair of session and question, so
  \<open>ON CONFLICT DO NOTHING\<close> has nothing to conflict with: member 7 presses the fifth
  option of question 1 twice and answers question 2; the table holds two rows for
  question 1 and the result counts both, 10 where one row gives 5.
\<close>

theorem repeated_press_adds_second_row:
  "map (\<lambda>r. (session_id r, question_id r, chosen_index r))
     (screening_answers
        (run [TextMessage demo_ctx (js ''K482913''), ButtonPress demo_ctx (AnsData 1 4),
              ButtonPress demo_ctx (AnsData 1 4)] demo_state))
     = [(1, 1, Some 4), (1, 1, Some 4)] \<and>
   last (outbox
     (run [TextMessage demo_ctx (js ''K482913''), ButtonPress demo_ctx (AnsData 1 4),
           ButtonPress demo_ctx (AnsData 1 4), TextMessage demo_ctx (js ''yes'')] demo_state))
     = Reply (ResultText 10 10 (js ''D'') FocusOnBasics) MemberKeyboard \<and>
   last (outbox
     (run [TextMessage demo_ctx (js ''K482913''), ButtonPress demo_ctx (AnsData 1 4),
           TextMessage demo_ctx (js ''yes'')] demo_state))
     = Reply (ResultText 5 10 (js ''D'') FocusOnBasics) MemberKeyboard"
  by code_simp

section \<open>Redeeming an invitation code\<close>

lemma distinct_key_filter:
  "distinct (map f xs) \<Longrightarrow> filter (\<lambda>x. f x = k) xs = r # rest \<Longrightarrow>
   rest = [] \<and> (\<forall>x \<in> set xs. f x = k \<longrightarrow> x = r)"
proof (induction xs arbitrary: r rest)
  case Nil
  then show ?case by simp
next
  case (Cons a xs)
  show ?case
  proof (cases "f a = k")
    case True
    with Cons.prems(1) have "\<forall>x \<in> set xs. f x \<noteq> k" by (auto simp: image_iff)
    then have "filter (\<lambda>x. f x = k) xs = []" by (simp add: filter_empty_conv)
    with True Cons.prems(2) have "r = a" "rest = []" by simp_all
    with \<open>\<forall>x \<in> set xs. f x \<noteq> k\<close> show ?thesis by auto
  next
    case False
    with Cons.prems have "distinct (map f xs)" "filter (\<lambda>x. f x = k) xs = r # rest" by simp_all
    from Cons.IH [OF this] False show ?thesis by auto
  qed
qed

lemma register_command_rejects:
  "fst (register_command uid t codeArg s) \<noteq> Registered \<Longrightarrow>
   snd (register_command uid t codeArg s) = s"
  by (auto simp: register_command_def split: option.splits list.splits sum.splits if_splits)

lemma register_command_accepts:
  assumes ok: "schema_ok s" and c: "c \<noteq> []"
    and new: "filter (\<lambda>m. im_tg_id m = uid) (imembers s) = []"
    and row: "filter (\<lambda>r. code r = c) (membership_codes s) = row # rest"
    and act: "active row"
    and exp: "case expires_at row of None \<Rightarrow> True | Some e \<Rightarrow> \<not> e < t"
    and cap: "used_count row < allowed_uses row"
  shows "register_command uid t (Some c) s =
     (Registered,
      s\<lparr>imembers := imembers s @ [\<lparr>im_tg_id = uid, code_used = Some c\<rparr>],
        membership_codes :=
          map (\<lambda>r. if code r = c then r\<lparr>used_count := used_count r + 1\<rparr> else r)
            (membership_codes s)\<rparr>)"
proof -
  from ok have d: "distinct (map code (membership_codes s))"
    and ty: "\<forall>r \<in> set (membership_codes s). int4_ok (allowed_uses r) \<and> int4_ok (used_count r)"
    by (simp_all add: schema_ok_def list_all_iff)
  from distinct_key_filter [OF d row]
  have only: "\<forall>r \<in> set (membership_codes s). code r = c \<longrightarrow> r = row" by simp
  have "row \<in> set (filter (\<lambda>r. code r = c) (membership_codes s))"
    unfolding row by simp
  then have rin: "row \<in> set (membership_codes s)" and rc: "code row = c" by simp_all
  have nomem: "\<not> list_ex (\<lambda>m. im_tg_id m = uid) (imembers s)"
    using new by (simp add: list_ex_iff filter_empty_conv)
  have fk: "list_ex (\<lambda>r. code r = c) (membership_codes s)"
    using rin rc by (auto simp: list_ex_iff)
  from ty rin cap have "int4_ok (used_count row + 1)" by (auto simp: int4_ok_def)
  with only have fits: "\<not> list_ex (\<lambda>r. code r = c \<and> \<not> int4_ok (used_count r + 1)) (membership_codes s)"
    by (auto simp: list_ex_iff)
  have ins: "insert_imember uid c s =
      Inr (s\<lparr>imembers := imembers s @ [\<lparr>im_tg_id = uid, code_used = Some c\<rparr>]\<rparr>)"
    using nomem fk by (simp add: insert_imember_def)
  have inc: "increment_used_count c (s\<lparr>imembers := imembers s @ [\<lparr>im_tg_id = uid, code_used = Some c\<rparr>]\<rparr>) =
      Inr (s\<lparr>imembers := imembers s @ [\<lparr>im_tg_id = uid, code_used = Some c\<rparr>],
             membership_codes :=
               map (\<lambda>r. if code r = c then r\<lparr>used_count := used_count r + 1\<rparr> else r)
                 (membership_codes s)\<rparr>)"
    using fits by (simp add: increment_used_count_def)
  have e: "\<not> (case expires_at row of None \<Rightarrow> False | Some e \<Rightarrow> e < t)"
    using exp by (simp split: option.splits)
  show ?thesis
    using c new row act e cap by (simp add: register_command_def ins inc)
qed


lemma register_command_Registered:
  assumes "fst (register_command uid t codeArg s) = Registered"
  shows "\<exists>c row rest. codeArg = Some c \<and> c \<noteq> [] \<and>
           filter (\<lambda>m. im_tg_id m = uid) (imembers s) = [] \<and>
           filter (\<lambda>r. code r = c) (membership_codes s) = row # rest \<and> active row \<and>
           (case expires_at row of None \<Rightarrow> True | Some e \<Rightarrow> \<not> e < t) \<and>
           used_count row < allowed_uses row"
  using assms
  by (auto simp: register_command_def split: option.splits list.splits sum.splits if_splits)

lemma filter_code_increment:
  "filter (\<lambda>r. code r = k)
     (map (\<lambda>r. if code r = c then r\<lparr>used_count := used_count r + 1\<rparr> else r) xs) =
   map (\<lambda>r. if code r = c then r\<lparr>used_count := used_count r + 1\<rparr> else r)
     (filter (\<lambda>r. code r = k) xs)"
  by (induction xs) simp_all

lemma map_code_increment:
  "map code (map (\<lambda>r. if code r = c then r\<lparr>used_count := used_count r + 1\<rparr> else r) xs) =
   map code xs"
  by (induction xs) simp_all

lemma register_command_step:
  assumes ok: "schema_ok s"
  shows "schema_ok (snd (register_command uid t codeArg s))"
    and "within_capacity s \<Longrightarrow> within_capacity (snd (register_command uid t codeArg s))"
    and "members_with k (snd (register_command uid t codeArg s)) +
         remaining_uses k (snd (register_command uid t codeArg s)) =
         members_with k s + remaining_uses k s"
proof -
  let ?s' = "snd (register_command uid t codeArg s)"
  have "schema_ok ?s' \<and> (within_capacity s \<longrightarrow> within_capacity ?s') \<and>
        members_with k ?s' + remaining_uses k ?s' = members_with k s + remaining_uses k s"
  proof (cases "fst (register_command uid t codeArg s) = Registered")
    case False
    then have "?s' = s" by (rule register_command_rejects)
    with ok show ?thesis by simp
  next
    case True
    from register_command_Registered [OF True] obtain c row rest
      where arg: "codeArg = Some c" and c: "c \<noteq> []"
        and new: "filter (\<lambda>m. im_tg_id m = uid) (imembers s) = []"
        and row: "filter (\<lambda>r. code r = c) (membership_codes s) = row # rest"
        and act: "active row"
        and exp: "case expires_at row of None \<Rightarrow> True | Some e \<Rightarrow> \<not> e < t"
        and cap: "used_count row < allowed_uses row"
      by blast
    let ?inc = "\<lambda>r. if code r = c then r\<lparr>used_count := used_count r + 1\<rparr> else r"
    from register_command_accepts [OF ok c new row act exp cap]
    have s': "?s' = s\<lparr>imembers := imembers s @ [\<lparr>im_tg_id = uid, code_used = Some c\<rparr>],
                     membership_codes := map ?inc (membership_codes s)\<rparr>"
      by (simp add: arg)
    from ok have d: "distinct (map code (membership_codes s))"
      and ty: "\<forall>r \<in> set (membership_codes s). int4_ok (allowed_uses r) \<and> int4_ok (used_count r)"
      by (simp_all add: schema_ok_def list_all_iff)
    from distinct_key_filter [OF d row]
    have rest: "rest = []"
      and only: "\<forall>r \<in> set (membership_codes s). code r = c \<longrightarrow> r = row" by simp_all
    have "row \<in> set (filter (\<lambda>r. code r = c) (membership_codes s))"
      unfolding row by simp
    then have rin: "row \<in> set (membership_codes s)" and rc: "code row = c" by simp_all
    from ty rin cap have fit: "int4_ok (used_count row + 1)" by (auto simp: int4_ok_def)
    have a: "schema_ok ?s'"
      unfolding s' schema_ok_def using d ty only fit
      by (auto simp: map_code_increment list_all_iff simp del: map_map)
    have b: "within_capacity ?s'" if "within_capacity s"
      using that only cap unfolding s' within_capacity_def
      by (auto simp: list_all_iff)
    have m: "members_with k ?s' = members_with k s + (if k = c then 1 else 0)"
      unfolding s' by (simp add: members_with_def)
    have r: "remaining_uses k ?s' + (if k = c then 1 else 0) = remaining_uses k s"
    proof (cases "k = c")
      case True
      have "filter (\<lambda>r. code r = c) (membership_codes ?s') = [row\<lparr>used_count := used_count row + 1\<rparr>]"
        unfolding s' using row rest rc by (simp add: filter_code_increment)
      with True row cap show ?thesis by (simp add: remaining_uses_def)
    next
      case False
      have "filter (\<lambda>r. code r = k) (membership_codes ?s') =
            map ?inc (filter (\<lambda>r. code r = k) (membership_codes s))"
        unfolding s' by (simp add: filter_code_increment)
      also have "\<dots> = filter (\<lambda>r. code r = k) (membership_codes s)"
        using False by (induction "membership_codes s") (auto intro: map_idI)
      finally show ?thesis using False by (simp add: remaining_uses_def)
    qed
    from a b m r show ?thesis by simp
  qed
  then show "schema_ok ?s'"
    and "within_capacity s \<Longrightarrow> within_capacity ?s'"
    and "members_with k ?s' + remaining_uses k ?s' = members_with k s + remaining_uses k s"
    by simp_all
qed

lemma run_register_invariants:
  "schema_ok s \<Longrightarrow>
   schema_ok (snd (run_register es s)) \<and>
   (within_capacity s \<longrightarrow> within_capacity (snd (run_register es s))) \<and>
   members_with k (snd (run_register es s)) + remaining_uses k (snd (run_register es s)) =
     members_with k s + remaining_uses k s"
proof (induction es arbitrary: s)
  case Nil
  then show ?case by simp
next
  case (Cons e es)
  obtain uid t codeArg where e: "e = (uid, t, codeArg)" by (cases e)
  obtain r s1 where r: "register_command uid t codeArg s = (r, s1)"
    by (cases "register_command uid t codeArg s")
  obtain rs s2 where rs: "run_register es s1 = (rs, s2)" by (cases "run_register es s1")
  have s1: "snd (register_command uid t codeArg s) = s1" using r by simp
  note st = register_command_step [OF Cons.prems, where uid = uid and t = t and codeArg = codeArg,
      unfolded s1]
  from Cons.IH [OF st(1)] rs
  have "schema_ok s2" "within_capacity s1 \<longrightarrow> within_capacity s2"
    "members_with k s2 + remaining_uses k s2 = members_with k s1 + remaining_uses k s1"
    by simp_all
  with st(2) st(3) [where k = k] show ?case
    using e r rs by auto
qed

text \<open>
  Claim C8. One \<open>/register CODE\<close> is one step. If the sender is already a member, or
  the code is unknown, deactivated, expired, or used as often as allowed, the reply is
  the message of that case and the state is unchanged: no member row is inserted and
  no \<open>used_count\<close> changes. Otherwise the reply is the success message, exactly one
  member row (the sender, with the code) is added and the \<open>used_count\<close> of the code's
  row grows by one, every other row staying as it was. Hence, over any sequence of
  redemptions, \<open>used_count\<close> never exceeds \<open>allowed_uses\<close> once it does not, the
  members registered with a code are at most those it had plus the uses it had left,
  and a code with one allowed use, not used yet, admits at most one member. The
  state is one the schema allows: codes are distinct and the two counters are 32-bit.
\<close>

theorem register_command_atomic_within_capacity:
  assumes "schema_ok s" and "c \<noteq> []"
  shows
    "(filter (\<lambda>m. im_tg_id m = uid) (imembers s) \<noteq> [] \<longrightarrow>
        register_command uid t (Some c) s = (AlreadyMember, s)) \<and>
     (filter (\<lambda>m. im_tg_id m = uid) (imembers s) = [] \<and>
      filter (\<lambda>r. code r = c) (membership_codes s) = [] \<longrightarrow>
        register_command uid t (Some c) s = (InvalidCode, s)) \<and>
     (filter (\<lambda>m. im_tg_id m = uid) (imembers s) = [] \<and>
      filter (\<lambda>r. code r = c) (membership_codes s) = row # rest \<longrightarrow>
        (\<not> active row \<longrightarrow> register_command uid t (Some c) s = (CodeDeactivated, s)) \<and>
        (active row \<and> (case expires_at row of None \<Rightarrow> False | Some e \<Rightarrow> e < t) \<longrightarrow>
           register_command uid t (Some c) s = (CodeExpired, s)) \<and>
        (active row \<and> \<not> (case expires_at row of None \<Rightarrow> False | Some e \<Rightarrow> e < t) \<and>
         allowed_uses row \<le> used_count row \<longrightarrow>
           register_command uid t (Some c) s = (CodeFull, s)) \<and>
        (active row \<and> \<not> (case expires_at row of None \<Rightarrow> False | Some e \<Rightarrow> e < t) \<and>
         used_count row < allowed_uses row \<longrightarrow>
           register_command uid t (Some c) s =
             (Registered,
              s\<lparr>imembers := imembers s @ [\<lparr>im_tg_id = uid, code_used = Some c\<rparr>],
                membership_codes :=
                  map (\<lambda>r. if code r = c then r\<lparr>used_count := used_count r + 1\<rparr> else r)
                    (membership_codes s)\<rparr>) \<and>
           filter (\<lambda>r. code r = c) (membership_codes (snd (register_command uid t (Some c) s)))
             = [row\<lparr>used_count := used_count row + 1\<rparr>])) \<and>
     (fst (register_command uid t codeArg s) \<noteq> Registered \<longrightarrow>
        snd (register_command uid t codeArg s) = s) \<and>
     (within_capacity s \<longrightarrow> within_capacity (snd (run_register es s))) \<and>
     members_with k (snd (run_register es s)) \<le> members_with k s + remaining_uses k s \<and>
     (filter (\<lambda>r. code r = k) (membership_codes s) = [row'] \<and> allowed_uses row' = 1 \<and>
      used_count row' = 0 \<and> members_with k s = 0 \<longrightarrow>
        members_with k (snd (run_register es s)) \<le> 1)"
proof -
  have member: "register_command uid t (Some c) s = (AlreadyMember, s)"
    if "filter (\<lambda>m. im_tg_id m = uid) (imembers s) \<noteq> []"
    using that assms(2) by (simp add: register_command_def)
  have unknown: "register_command uid t (Some c) s = (InvalidCode, s)"
    if "filter (\<lambda>m. im_tg_id m = uid) (imembers s) = []"
      "filter (\<lambda>r. code r = c) (membership_codes s) = []"
    using that assms(2) by (simp add: register_command_def)
  have known: "(\<not> active row \<longrightarrow> register_command uid t (Some c) s = (CodeDeactivated, s)) \<and>
        (active row \<and> (case expires_at row of None \<Rightarrow> False | Some e \<Rightarrow> e < t) \<longrightarrow>
           register_command uid t (Some c) s = (CodeExpired, s)) \<and>
        (active row \<and> \<not> (case expires_at row of None \<Rightarrow> False | Some e \<Rightarrow> e < t) \<and>
         allowed_uses row \<le> used_count row \<longrightarrow>
           register_command uid t (Some c) s = (CodeFull, s)) \<and>
        (active row \<and> \<not> (case expires_at row of None \<Rightarrow> False | Some e \<Rightarrow> e < t) \<and>
         used_count row < allowed_uses row \<longrightarrow>
           register_command uid t (Some c) s =
             (Registered,
              s\<lparr>imembers := imembers s @ [\<lparr>im_tg_id = uid, code_used = Some c\<rparr>],
                membership_codes :=
                  map (\<lambda>r. if code r = c then r\<lparr>used_count := used_count r + 1\<rparr> else r)
                    (membership_codes s)\<rparr>) \<and>
           filter (\<lambda>r. code r = c) (membership_codes (snd (register_command uid t (Some c) s)))
             = [row\<lparr>used_count := used_count row + 1\<rparr>])"
    if new: "filter (\<lambda>m. im_tg_id m = uid) (imembers s) = []"
      and row: "filter (\<lambda>r. code r = c) (membership_codes s) = row # rest"
  proof (intro conjI impI)
    assume "\<not> active row"
    with new row assms(2) show "register_command uid t (Some c) s = (CodeDeactivated, s)"
      by (simp add: register_command_def)
  next
    assume "active row \<and> (case expires_at row of None \<Rightarrow> False | Some e \<Rightarrow> e < t)"
    with new row assms(2) show "register_command uid t (Some c) s = (CodeExpired, s)"
      by (simp add: register_command_def)
  next
    assume "active row \<and> \<not> (case expires_at row of None \<Rightarrow> False | Some e \<Rightarrow> e < t) \<and>
         allowed_uses row \<le> used_count row"
    with new row assms(2) show "register_command uid t (Some c) s = (CodeFull, s)"
      by (simp add: register_command_def)
  next
    assume a: "active row \<and> \<not> (case expires_at row of None \<Rightarrow> False | Some e \<Rightarrow> e < t) \<and>
         used_count row < allowed_uses row"
    then have e: "case expires_at row of None \<Rightarrow> True | Some e \<Rightarrow> \<not> e < t"
      by (simp split: option.splits)
    from a register_command_accepts [OF assms(1) assms(2) new row _ e]
    show acc: "register_command uid t (Some c) s =
             (Registered,
              s\<lparr>imembers := imembers s @ [\<lparr>im_tg_id = uid, code_used = Some c\<rparr>],
                membership_codes :=
                  map (\<lambda>r. if code r = c then r\<lparr>used_count := used_count r + 1\<rparr> else r)
                    (membership_codes s)\<rparr>)"
      by simp
    from assms(1) have d: "distinct (map code (membership_codes s))"
      by (simp add: schema_ok_def)
    from distinct_key_filter [OF d row] have rest: "rest = []" by simp
    have "row \<in> set (filter (\<lambda>r. code r = c) (membership_codes s))"
      unfolding row by simp
    then have rc: "code row = c" by simp
    show "filter (\<lambda>r. code r = c) (membership_codes (snd (register_command uid t (Some c) s)))
             = [row\<lparr>used_count := used_count row + 1\<rparr>]"
      unfolding acc using row rest rc by (simp add: filter_code_increment)
  qed
  note inv = run_register_invariants [OF assms(1), of es k]
  have bound: "members_with k (snd (run_register es s)) \<le> members_with k s + remaining_uses k s"
    using inv by linarith
  have one: "members_with k (snd (run_register es s)) \<le> 1"
    if "filter (\<lambda>r. code r = k) (membership_codes s) = [row'] \<and> allowed_uses row' = 1 \<and>
      used_count row' = 0 \<and> members_with k s = 0"
  proof -
    from that have "remaining_uses k s = 1" by (simp add: remaining_uses_def)
    with bound that show ?thesis by simp
  qed
  from member unknown known register_command_rejects [of uid t codeArg s] inv bound one
  show ?thesis by blast
qed

theorem register_command_atomic_within_capacity_witness:
  "schema_ok invite_state \<and> within_capacity invite_state \<and>
   register_command 5 100 (Some (js ''ONE'')) invite_state = (AlreadyMember, invite_state) \<and>
   register_command 1 100 (Some (js ''NOPE'')) invite_state = (InvalidCode, invite_state) \<and>
   register_command 1 100 (Some (js ''OFF'')) invite_state = (CodeDeactivated, invite_state) \<and>
   register_command 1 100 (Some (js ''OLD'')) invite_state = (CodeExpired, invite_state) \<and>
   register_command 1 100 (Some (js ''FULL'')) invite_state = (CodeFull, invite_state) \<and>
   register_command 1 100 (Some (js ''ONE'')) invite_state =
     (Registered,
      invite_state
        \<lparr>imembers := [\<lparr>im_tg_id = 5, code_used = Some (js ''FULL'')\<rparr>,
                      \<lparr>im_tg_id = 1, code_used = Some (js ''ONE'')\<rparr>],
         membership_codes :=
           [\<lparr>code = js ''ONE'', allowed_uses = 1, used_count = 1, expires_at = None, active = True\<rparr>,
            \<lparr>code = js ''OLD'', allowed_uses = 3, used_count = 0, expires_at = Some 50, active = True\<rparr>,
            \<lparr>code = js ''OFF'', allowed_uses = 3, used_count = 0, expires_at = None, active = False\<rparr>,
            \<lparr>code = js ''FULL'', allowed_uses = 1, used_count = 1, expires_at = None, active = True\<rparr>]\<rparr>) \<and>
   fst (run_register [(1, 100, Some (js ''ONE'')), (2, 100, Some (js ''ONE''))] invite_state)
     = [Registered, CodeFull] \<and>
   within_capacity
     (snd (run_register [(1, 100, Some (js ''ONE'')), (2, 100, Some (js ''ONE''))] invite_state)) \<and>
   members_with (js ''ONE'')
     (snd (run_register [(1, 100, Some (js ''ONE'')), (2, 100, Some (js ''ONE''))] invite_state))
     \<le> 1"
proof -
  let ?one = "\<lparr>code = js ''ONE'', allowed_uses = 1, used_count = 0, expires_at = None, active = True\<rparr>"
  let ?old = "\<lparr>code = js ''OLD'', allowed_uses = 3, used_count = 0, expires_at = Some 50, active = True\<rparr>"
  let ?off = "\<lparr>code = js ''OFF'', allowed_uses = 3, used_count = 0, expires_at = None, active = False\<rparr>"
  let ?full = "\<lparr>code = js ''FULL'', allowed_uses = 1, used_count = 1, expires_at = None, active = True\<rparr>"
  let ?es = "[(1, 100, Some (js ''ONE'')), (2, 100, Some (js ''ONE''))]"
  have ok: "schema_ok invite_state"
    by (simp add: schema_ok_def invite_state_def js_def int4_ok_def)
  have wc: "within_capacity invite_state"
    by (simp add: within_capacity_def invite_state_def)
  have ne: "js ''ONE'' \<noteq> []" "js ''NOPE'' \<noteq> []" "js ''OFF'' \<noteq> []" "js ''OLD'' \<noteq> []"
    "js ''FULL'' \<noteq> []"
    by (simp_all add: js_def)
  note t = register_command_atomic_within_capacity [OF ok]
  have m5: "filter (\<lambda>m. im_tg_id m = 5) (imembers invite_state) \<noteq> []"
    by (simp add: invite_state_def)
  have m1: "filter (\<lambda>m. im_tg_id m = 1) (imembers invite_state) = []"
    by (simp add: invite_state_def)
  have r0: "filter (\<lambda>r. code r = js ''NOPE'') (membership_codes invite_state) = []"
    by (simp add: invite_state_def js_def)
  have r1: "filter (\<lambda>r. code r = js ''ONE'') (membership_codes invite_state) = ?one # []"
    by (simp add: invite_state_def js_def)
  have r2: "filter (\<lambda>r. code r = js ''OLD'') (membership_codes invite_state) = ?old # []"
    by (simp add: invite_state_def js_def)
  have r3: "filter (\<lambda>r. code r = js ''OFF'') (membership_codes invite_state) = ?off # []"
    by (simp add: invite_state_def js_def)
  have r4: "filter (\<lambda>r. code r = js ''FULL'') (membership_codes invite_state) = ?full # []"
    by (simp add: invite_state_def js_def)
  have a: "register_command 5 100 (Some (js ''ONE'')) invite_state = (AlreadyMember, invite_state)"
    using t [OF ne(1), where uid = 5 and t = 100] m5 by blast
  have b: "register_command 1 100 (Some (js ''NOPE'')) invite_state = (InvalidCode, invite_state)"
    using t [OF ne(2), where uid = 1 and t = 100] m1 r0 by blast
  have c: "register_command 1 100 (Some (js ''OFF'')) invite_state = (CodeDeactivated, invite_state)"
    using t [OF ne(3), where uid = 1 and t = 100 and row = "?off" and rest = "[]"] m1 r3 by simp
  have d: "register_command 1 100 (Some (js ''OLD'')) invite_state = (CodeExpired, invite_state)"
    using t [OF ne(4), where uid = 1 and t = 100 and row = "?old" and rest = "[]"] m1 r2 by simp
  have e: "register_command 1 100 (Some (js ''FULL'')) invite_state = (CodeFull, invite_state)"
    using t [OF ne(5), where uid = 1 and t = 100 and row = "?full" and rest = "[]"] m1 r4 by simp
  have f: "register_command 1 100 (Some (js ''ONE'')) invite_state =
     (Registered,
      invite_state
        \<lparr>imembers := imembers invite_state @ [\<lparr>im_tg_id = 1, code_used = Some (js ''ONE'')\<rparr>],
         membership_codes :=
           map (\<lambda>r. if code r = js ''ONE'' then r\<lparr>used_count := used_count r + 1\<rparr> else r)
             (membership_codes invite_state)\<rparr>)"
    using t [OF ne(1), where uid = 1 and t = 100 and row = "?one" and rest = "[]"] m1 r1 by simp
  have f': "register_command 1 100 (Some (js ''ONE'')) invite_state =
     (Registered,
      invite_state
        \<lparr>imembers := [\<lparr>im_tg_id = 5, code_used = Some (js ''FULL'')\<rparr>,
                      \<lparr>im_tg_id = 1, code_used = Some (js ''ONE'')\<rparr>],
         membership_codes := [?one\<lparr>used_count := 1\<rparr>, ?old, ?off, ?full]\<rparr>)"
    unfolding f by (simp add: invite_state_def js_def)
  have g: "fst (run_register ?es invite_state) = [Registered, CodeFull]"
    by code_simp
  have h: "within_capacity (snd (run_register ?es invite_state))"
    using t [OF ne(1), where es = "?es"] wc by blast
  have mw: "members_with (js ''ONE'') invite_state = 0"
    by (simp add: members_with_def invite_state_def js_def)
  have i: "members_with (js ''ONE'') (snd (run_register ?es invite_state)) \<le> 1"
    using t [OF ne(1), where es = "?es" and k = "js ''ONE''" and row' = "?one"] r1 mw by simp
  from ok wc a b c d e f' g h i show ?thesis by simp
qed

end
